theory Spec2Isabelle
  imports Main "HOL-Library.Sublist" "HOL-Library.AList"
begin

section \<open>Python values and the environment of the two scripts\<close>

text \<open>
  The two scripts (\<^verbatim>\<open>random_rename.py\<close> and \<^verbatim>\<open>backend/extract.py\<close>) talk to the
  world through library calls only: the random generator, \<^verbatim>\<open>os.path\<close>, \<^verbatim>\<open>os.walk\<close>,
  \<^verbatim>\<open>os.rename\<close>, \<^verbatim>\<open>shutil.copy2\<close>, \<^verbatim>\<open>os.remove\<close>, \<^verbatim>\<open>open\<close>, PyPDF2 and Pillow.
  The model keeps the code of the scripts and takes the answers of those calls from an
  environment record, so that every theorem holds for whatever the libraries answer.
  Exceptions are values: \<open>pyexc\<close> ranges over the subclasses of Python's
  \<^verbatim>\<open>Exception\<close>, which is all that \<^verbatim>\<open>except Exception\<close> catches.
  Output written with \<^verbatim>\<open>print\<close> is left out of the model.
\<close>

datatype pyexc =
    FileNotFoundError
  | PermissionError
  | OSError
  | ValueError
  | AttributeError
  | OtherException

subsection \<open>Strings\<close>

definition ascii_lowercase :: string where
  "ascii_lowercase = ''abcdefghijklmnopqrstuvwxyz''"

definition ascii_uppercase :: string where
  "ascii_uppercase = ''ABCDEFGHIJKLMNOPQRSTUVWXYZ''"

definition digits :: string where
  "digits = ''0123456789''"

definition special_chars :: string where
  "special_chars = ''!@#$%^&*()-_=+[]{}|;:,.<>?''"

text \<open>\<^verbatim>\<open>str.lower\<close> on one character: the letters A to Z are mapped, every other
  byte is left as it is. Python lower-cases every cased letter of Unicode; the model
  follows it on ASCII text.\<close>

definition lower_char :: "char \<Rightarrow> char" where
  "lower_char c =
     (case map_of (zip ascii_uppercase ascii_lowercase) c of
        Some l \<Rightarrow> l
      | None \<Rightarrow> c)"

definition lower :: "string \<Rightarrow> string" where
  "lower s = map lower_char s"

text \<open>\<^verbatim>\<open>s.lstrip('.')\<close>.\<close>

definition lstrip_dots :: "string \<Rightarrow> string" where
  "lstrip_dots s = dropWhile (\<lambda>c. c = CHR ''.'') s"

text \<open>\<^verbatim>\<open>s.rfind(c)\<close> for a one-character needle: the highest index holding \<open>c\<close>,
  or \<open>-1\<close>.\<close>

definition rfind :: "string \<Rightarrow> char \<Rightarrow> int" where
  "rfind p c =
     (if c \<in> set p
      then int (length p) - 1 - int (length (takeWhile (\<lambda>x. x \<noteq> c) (rev p)))
      else - 1)"

subsection \<open>\<^verbatim>\<open>os.path.splitext\<close>\<close>

text \<open>
  \<^verbatim>\<open>genericpath._splitext(p, sep, altsep, extsep)\<close>, which both \<^verbatim>\<open>posixpath\<close>
  (\<open>sep = /\<close>, no \<open>altsep\<close>) and \<^verbatim>\<open>ntpath\<close> (\<open>sep = \\<close>, \<open>altsep = /\<close>) call.
  The inner \<^verbatim>\<open>while\<close> loop skips leading dots of the file name and answers at the
  first other character before the last dot; it is the bounded search \<open>list_ex\<close>.
\<close>

definition splitext_generic :: "char \<Rightarrow> char option \<Rightarrow> string \<Rightarrow> string \<times> string" where
  "splitext_generic sep altsep p =
     (let sepIndex = (case altsep of
                        None \<Rightarrow> rfind p sep
                      | Some a \<Rightarrow> max (rfind p sep) (rfind p a));
          dotIndex = rfind p (CHR ''.'')
      in if dotIndex > sepIndex \<and>
            list_ex (\<lambda>i. p ! i \<noteq> CHR ''.'') [nat (sepIndex + 1)..<nat dotIndex]
         then (take (nat dotIndex) p, drop (nat dotIndex) p)
         else (p, []))"

definition splitext :: "bool \<Rightarrow> string \<Rightarrow> string \<times> string" where
  "splitext on_win32 p =
     (if on_win32 then splitext_generic (CHR 0x5C) (Some (CHR ''/'')) p
      else splitext_generic (CHR ''/'') None p)"

section \<open>The random renamer (\<^verbatim>\<open>random_rename.py\<close>)\<close>

subsection \<open>Environment, options and state\<close>

text \<open>
  A call that changes the system is a \<open>syscall\<close>: a rename, a copy, a remove, the write
  of the log file, and the registry write with which the script tries to switch on the
  long-path support of win32; the operating system answers it
  with \<open>None\<close> (the call returned) or \<open>Some e\<close> (it raised \<open>e\<close>). The answer may depend
  on everything that happened before, so the environment's \<open>os_call\<close> reads the
  history of calls and answers; the history is part of the run's state.
\<close>

datatype syscall =
    EnableLongPaths
  | OsRename string string
  | Copy2 string string
  | OsRemove string
  | WriteLog string "(string \<times> string) list"

type_synonym event = "syscall \<times> pyexc option"

record env =
  win32 :: bool                                \<comment> \<open>\<^verbatim>\<open>sys.platform == 'win32'\<close>\<close>
  rng :: "nat \<Rightarrow> nat"                           \<comment> \<open>the draws of the random generator, in order\<close>
  os_call :: "event list \<Rightarrow> syscall \<Rightarrow> pyexc option"
  path_join :: "string \<Rightarrow> string \<Rightarrow> string"     \<comment> \<open>\<^verbatim>\<open>os.path.join\<close>\<close>
  basename :: "string \<Rightarrow> string"               \<comment> \<open>\<^verbatim>\<open>os.path.basename\<close>\<close>
  abspath :: "string \<Rightarrow> string"                \<comment> \<open>\<^verbatim>\<open>os.path.abspath\<close>\<close>
  relpath :: "string \<Rightarrow> string \<Rightarrow> string"       \<comment> \<open>\<^verbatim>\<open>os.path.relpath\<close>\<close>
  isdir :: "string \<Rightarrow> bool"                    \<comment> \<open>\<^verbatim>\<open>os.path.isdir\<close>\<close>
  walk :: "string \<Rightarrow> (string \<times> string list) list"
      \<comment> \<open>\<^verbatim>\<open>os.walk\<close>: the pairs \<open>(current_dir, files)\<close> in the order they are yielded\<close>
  script_file :: string                        \<comment> \<open>\<^verbatim>\<open>__file__\<close>\<close>
  stamp :: string                              \<comment> \<open>\<^verbatim>\<open>time.strftime('%Y%m%d_%H%M%S')\<close>\<close>

record options =
  name_length :: int
  use_letters :: bool
  use_digits :: bool
  use_special :: bool
  dry_run :: bool
  create_log :: bool
  exclude_script :: bool
  max_depth :: "int option"
  short_name :: bool
  exclude_patterns :: "string list option"
  exclude_extensions :: "string list option"

text \<open>
  The local variables of \<^verbatim>\<open>rename_files_recursively\<close>. The dictionaries
  \<^verbatim>\<open>renamed_files\<close> and \<^verbatim>\<open>log_data['files']\<close> are association lists in insertion
  order (\<open>AList.update\<close> overwrites a key in place and appends a new one, as a Python
  \<^verbatim>\<open>dict\<close> does); \<^verbatim>\<open>used_names_by_dir\<close> is a map from directories to sets of names.
\<close>

record rstate =
  renamed_files :: "(string \<times> string) list"
  used_names_by_dir :: "string \<rightharpoonup> string set"
  log_files :: "(string \<times> string) list"
  total :: nat
  renamed :: nat
  skipped :: nat
  errors :: nat
  rng_pos :: nat
  calls :: "event list"

definition init_state :: rstate where
  "init_state =
     \<lparr>renamed_files = [], used_names_by_dir = Map.empty, log_files = [],
      total = 0, renamed = 0, skipped = 0, errors = 0, rng_pos = 0, calls = []\<rparr>"

subsection \<open>\<^verbatim>\<open>generate_random_name\<close>\<close>

definition alphabet :: "bool \<Rightarrow> bool \<Rightarrow> bool \<Rightarrow> string" where
  "alphabet letters_on digits_on special_on =
     (let chars = [];
          chars = (if letters_on then chars @ ascii_lowercase @ ascii_uppercase else chars);
          chars = (if digits_on then chars @ digits else chars);
          chars = (if special_on then chars @ special_chars else chars)
      in if chars = [] then ascii_lowercase @ digits else chars)"

text \<open>
  \<^verbatim>\<open>random.choice(chars)\<close> takes the next draw and indexes \<open>chars\<close> with it, below
  \<open>len(chars)\<close>; \<open>chars\<close> is never empty here. \<^verbatim>\<open>range(length)\<close> is empty for a
  length below 1. The result is the name and the position of the next unused draw.
\<close>

definition generate_random_name ::
  "(nat \<Rightarrow> nat) \<Rightarrow> nat \<Rightarrow> int \<Rightarrow> bool \<Rightarrow> bool \<Rightarrow> bool \<Rightarrow> string \<times> nat" where
  "generate_random_name draws pos len letters_on digits_on special_on =
     (let chars = alphabet letters_on digits_on special_on
      in (map (\<lambda>i. chars ! (draws (pos + i) mod length chars)) [0..<nat len],
          pos + nat len))"

subsection \<open>\<^verbatim>\<open>should_exclude_file\<close> and \<^verbatim>\<open>is_long_path\<close>\<close>

definition should_exclude_file :: "env \<Rightarrow> string \<Rightarrow> string \<Rightarrow> options \<Rightarrow> bool" where
  "should_exclude_file e filename script_path opts =
     (let base_filename = basename e filename
      in if exclude_script opts \<and> abspath e filename = script_path then True
         else let extension = snd (splitext (win32 e) base_filename)
              in if lower extension \<in>
                      set (case exclude_extensions opts of None \<Rightarrow> [] | Some l \<Rightarrow> l)
                 then True
                 else (case exclude_patterns opts of
                         None \<Rightarrow> False
                       | Some patterns \<Rightarrow>
                           list_ex (\<lambda>pattern. sublist pattern base_filename) patterns))"

text \<open>\<^verbatim>\<open>is_long_path\<close> decides about a warning that is printed, nothing else.\<close>

definition is_long_path :: "string \<Rightarrow> bool" where
  "is_long_path path = (length path > 240)"

subsection \<open>\<^verbatim>\<open>safe_rename\<close>\<close>

definition perform :: "env \<Rightarrow> event list \<Rightarrow> syscall \<Rightarrow> pyexc option \<times> event list" where
  "perform e h c = (let r = os_call e h c in (r, h @ [(c, r)]))"

definition long_prefix :: string where
  "long_prefix = [CHR 0x5C, CHR 0x5C, CHR ''?'', CHR 0x5C]"

text \<open>The result is the returned flag and the history extended by the calls made.\<close>

definition safe_rename :: "env \<Rightarrow> event list \<Rightarrow> string \<Rightarrow> string \<Rightarrow> bool \<times> event list" where
  "safe_rename e h old_path new_path =
     (case perform e h (OsRename old_path new_path) of
        (None, h1) \<Rightarrow> (True, h1)
      | (Some FileNotFoundError, h1) \<Rightarrow>
          (if win32 e then
             (case perform e h1 (OsRename (long_prefix @ abspath e old_path)
                                          (long_prefix @ abspath e new_path)) of
                (None, h2) \<Rightarrow> (True, h2)
              | (Some _, h2) \<Rightarrow>
                  (case perform e h2 (Copy2 old_path new_path) of
                     (Some _, h3) \<Rightarrow> (False, h3)
                   | (None, h3) \<Rightarrow>
                       (case perform e h3 (OsRemove old_path) of
                          (None, h4) \<Rightarrow> (True, h4)
                        | (Some _, h4) \<Rightarrow> (False, h4))))
           else (False, h1))
      | (Some _, h1) \<Rightarrow> (False, h1))"

subsection \<open>\<^verbatim>\<open>rename_files_recursively\<close>\<close>

text \<open>
  \<^verbatim>\<open>used_names_by_dir[current_dir]\<close>: the key is present whenever the lookup runs,
  since lines 159 and 160 have stored it before the files of the directory are read.
\<close>

definition names_in :: "(string \<rightharpoonup> string set) \<Rightarrow> string \<Rightarrow> string set" where
  "names_in u d = (case u d of None \<Rightarrow> {} | Some s \<Rightarrow> s)"

text \<open>
  The \<^verbatim>\<open>while True\<close> loop of lines 179 to 189. It has no bound, so it is a partial
  function: \<open>None\<close> is the loop that never leaves. The result is the new name, the
  updated dictionary of used names and the position of the next unused draw.
\<close>

partial_function (option) unique_name ::
  "env \<Rightarrow> options \<Rightarrow> string \<Rightarrow> string \<Rightarrow> (string \<rightharpoonup> string set) \<Rightarrow> nat
     \<Rightarrow> (string \<times> (string \<rightharpoonup> string set) \<times> nat) option" where
  "unique_name e opts extension current_dir u pos =
     (let g = generate_random_name (rng e) pos (name_length opts)
                (use_letters opts) (use_digits opts) (use_special opts);
          new_name = fst g @ extension
      in if new_name \<notin> names_in u current_dir
         then Some (new_name, u(current_dir \<mapsto> insert new_name (names_in u current_dir)), snd g)
         else unique_name e opts extension current_dir u (snd g))"

text \<open>Lines 215 to 223: store the mapping and the log entry. \<^verbatim>\<open>os.path.relpath\<close> is
  a total function of the environment here; on win32 it raises \<^verbatim>\<open>ValueError\<close> for
  paths on different drives, a run the model does not have.\<close>

definition store_mapping :: "env \<Rightarrow> options \<Rightarrow> string \<Rightarrow> string \<Rightarrow> string \<Rightarrow> rstate \<Rightarrow> rstate" where
  "store_mapping e opts root_folder old_path new_path st =
     (let rel_path = relpath e old_path root_folder;
          rel_new_path = relpath e new_path root_folder;
          st = st\<lparr>renamed_files := AList.update rel_path rel_new_path (renamed_files st)\<rparr>
      in if create_log opts
         then st\<lparr>log_files := AList.update rel_path rel_new_path (log_files st)\<rparr>
         else st)"

text \<open>The test of line 168 and the name chosen by lines 176 to 189, for one file.\<close>

definition excluded :: "env \<Rightarrow> options \<Rightarrow> string \<Rightarrow> string \<Rightarrow> bool" where
  "excluded e opts current_dir filename =
     should_exclude_file e (path_join e current_dir filename) (abspath e (script_file e)) opts"

definition name_for ::
  "env \<Rightarrow> options \<Rightarrow> string \<Rightarrow> string \<Rightarrow> rstate
     \<Rightarrow> (string \<times> (string \<rightharpoonup> string set) \<times> nat) option" where
  "name_for e opts current_dir filename st =
     unique_name e opts (snd (splitext (win32 e) filename)) current_dir
       (used_names_by_dir st) (rng_pos st)"

text \<open>
  The body of the loop over the files of one directory, lines 164 to 223. The test of
  lines 196 and 197 only prints a warning.
\<close>

definition process_file ::
  "env \<Rightarrow> options \<Rightarrow> string \<Rightarrow> string \<Rightarrow> string \<Rightarrow> rstate \<Rightarrow> rstate option" where
  "process_file e opts root_folder current_dir filename st0 =
     (let st = st0\<lparr>total := total st0 + 1\<rparr>
      in if excluded e opts current_dir filename
         then Some (st\<lparr>skipped := skipped st + 1\<rparr>)
         else
           (case name_for e opts current_dir filename st of
                 None \<Rightarrow> None
               | Some (new_name, u, pos) \<Rightarrow>
                   (let st = st\<lparr>used_names_by_dir := u, rng_pos := pos\<rparr>;
                        old_path = path_join e current_dir filename;
                        new_path = path_join e current_dir new_name
                    in if \<not> dry_run opts
                       then (case safe_rename e (calls st) old_path new_path of
                               (True, h) \<Rightarrow>
                                 Some (store_mapping e opts root_folder old_path new_path
                                         (st\<lparr>calls := h, renamed := renamed st + 1\<rparr>))
                             | (False, h) \<Rightarrow>
                                 Some (st\<lparr>calls := h, errors := errors st + 1\<rparr>))
                       else Some (store_mapping e opts root_folder old_path new_path st))))"

fun process_files ::
  "env \<Rightarrow> options \<Rightarrow> string \<Rightarrow> string \<Rightarrow> string list \<Rightarrow> rstate \<Rightarrow> rstate option" where
  "process_files e opts root_folder current_dir [] st = Some st"
| "process_files e opts root_folder current_dir (filename # files) st =
     (case process_file e opts root_folder current_dir filename st of
        None \<Rightarrow> None
      | Some st' \<Rightarrow> process_files e opts root_folder current_dir files st')"

text \<open>Lines 159 and 160: a directory seen for the first time gets an empty set.\<close>

definition enter_dir :: "string \<Rightarrow> rstate \<Rightarrow> rstate" where
  "enter_dir current_dir st =
     (if current_dir \<notin> dom (used_names_by_dir st)
      then st\<lparr>used_names_by_dir := (used_names_by_dir st)(current_dir \<mapsto> {})\<rparr>
      else st)"

text \<open>
  The loop over \<^verbatim>\<open>os.walk(root_folder)\<close>, lines 153 to 223. \<^verbatim>\<open>os.walk\<close> lists a
  directory before it yields it, and the renamer renames files only, inside the directory
  they are in, so the walk is taken as the list of what it yields.
\<close>

fun walk_loop ::
  "env \<Rightarrow> options \<Rightarrow> string \<Rightarrow> (string \<times> string list) list \<Rightarrow> rstate \<Rightarrow> rstate option" where
  "walk_loop e opts root_folder [] st = Some st"
| "walk_loop e opts root_folder ((current_dir, files) # rest) st =
     (case process_files e opts root_folder current_dir files (enter_dir current_dir st) of
        None \<Rightarrow> None
      | Some st' \<Rightarrow> walk_loop e opts root_folder rest st')"

text \<open>
  Lines 139 to 150: on win32 the run begins with the registry write; whatever it raises is
  caught, on both outcomes the run goes on.
\<close>

definition start_state :: "env \<Rightarrow> rstate" where
  "start_state e =
     (if win32 e then init_state\<lparr>calls := snd (perform e [] EnableLongPaths)\<rparr>
      else init_state)"

text \<open>
  The whole function. It raises \<^verbatim>\<open>ValueError\<close> for a root that is no directory,
  and whatever writing the log raises; otherwise it returns its counters, which are
  fields of the final state returned here. \<open>None\<close> is the run that never returns.
  Of the log document the model keeps the entry \<^verbatim>\<open>files\<close>, the mapping.
\<close>

definition rename_files_recursively :: "env \<Rightarrow> string \<Rightarrow> options \<Rightarrow> (pyexc + rstate) option" where
  "rename_files_recursively e root_folder opts =
     (if \<not> isdir e root_folder then Some (Inl ValueError)
      else case walk_loop e opts root_folder (walk e root_folder) (start_state e) of
             None \<Rightarrow> None
           | Some st \<Rightarrow>
               if create_log opts \<and> renamed_files st \<noteq> [] \<and> \<not> dry_run opts
               then (let log_filename =
                           path_join e root_folder (''rename_log_'' @ stamp e @ ''.json'')
                     in case perform e (calls st) (WriteLog log_filename (log_files st)) of
                          (Some x, h) \<Rightarrow> Some (Inl x)
                        | (None, h) \<Rightarrow> Some (Inr (st\<lparr>calls := h\<rparr>)))
               else Some (Inr st))"

subsection \<open>The options built by the command line, lines 269 to 287\<close>

record args =
  arg_folder :: "string option"
  arg_length :: int
  arg_no_letters :: bool
  arg_no_digits :: bool
  arg_special :: bool
  arg_dry_run :: bool
  arg_no_log :: bool
  arg_include_script :: bool
  arg_exclude :: "string list option"
  arg_exclude_ext :: "string list option"
  arg_max_depth :: "int option"
  arg_short_name :: bool

definition make_options :: "args \<Rightarrow> options" where
  "make_options a =
     \<lparr>name_length = arg_length a,
      use_letters = (\<not> arg_no_letters a),
      use_digits = (\<not> arg_no_digits a),
      use_special = arg_special a,
      dry_run = arg_dry_run a,
      create_log = (\<not> arg_no_log a),
      exclude_script = (\<not> arg_include_script a),
      max_depth = arg_max_depth a,
      short_name = arg_short_name a,
      exclude_patterns = (case arg_exclude a of
                            None \<Rightarrow> None
                          | Some l \<Rightarrow> if l = [] then None else Some l),
      exclude_extensions = (case arg_exclude_ext a of
                              None \<Rightarrow> None
                            | Some l \<Rightarrow> if l = [] then None
                                        else Some (map (\<lambda>ext. ''.'' @ lstrip_dots ext) l))\<rparr>"

subsection \<open>Quantities the properties speak of\<close>

text \<open>The calls of the three tiers of \<open>safe_rename\<close>, in the order of the source.\<close>

definition tier_calls :: "env \<Rightarrow> string \<Rightarrow> string \<Rightarrow> syscall list" where
  "tier_calls e old_path new_path =
     [OsRename old_path new_path,
      OsRename (long_prefix @ abspath e old_path) (long_prefix @ abspath e new_path),
      Copy2 old_path new_path,
      OsRemove old_path]"

text \<open>The events a call sequence added to the history \<open>h\<close>, given the later history.\<close>

definition new_events :: "event list \<Rightarrow> event list \<Rightarrow> event list" where
  "new_events h h' = drop (length h) h'"

text \<open>The number of files a walk yields.\<close>

definition file_count :: "(string \<times> string list) list \<Rightarrow> nat" where
  "file_count w = sum_list (map (\<lambda>(d, files). length files) w)"

text \<open>The number of names the renamer generates in directory \<open>d\<close> during a walk: one
  for each file of \<open>d\<close> that is not excluded.\<close>

definition generated_in :: "env \<Rightarrow> options \<Rightarrow> (string \<times> string list) list \<Rightarrow> string \<Rightarrow> nat" where
  "generated_in e opts w d =
     sum_list (map (\<lambda>(d', files).
                 if d' = d then length (filter (\<lambda>f. \<not> excluded e opts d' f) files) else 0) w)"

text \<open>The candidate name of the \<open>k\<close>-th pass through the loop of \<open>unique_name\<close> that
  starts at draw \<open>pos\<close>: every pass takes \<open>nat (name_length opts)\<close> draws.\<close>

definition candidate :: "env \<Rightarrow> options \<Rightarrow> string \<Rightarrow> nat \<Rightarrow> nat \<Rightarrow> string" where
  "candidate e opts extension pos k =
     fst (generate_random_name (rng e) (pos + k * nat (name_length opts)) (name_length opts)
            (use_letters opts) (use_digits opts) (use_special opts)) @ extension"


subsection \<open>A concrete platform for the examples\<close>

text \<open>
  \<^verbatim>\<open>posixpath.join\<close> for two arguments, \<^verbatim>\<open>posixpath.basename\<close>, and
  \<^verbatim>\<open>os.path.relpath(path, start)\<close> for an absolute, normalised \<open>path\<close> below the
  absolute, normalised directory \<open>start\<close>, where it is what follows \<open>start\<close> and the
  separator. The examples use absolute, normalised paths only, so \<^verbatim>\<open>abspath\<close> is the
  identity there. The random generator of the examples draws 0, 1, 2 and so on; the
  operating system lets every call succeed.
\<close>

definition posix_join :: "string \<Rightarrow> string \<Rightarrow> string" where
  "posix_join a b =
     (if b \<noteq> [] \<and> hd b = CHR ''/'' then b
      else if a = [] \<or> last a = CHR ''/'' then a @ b
      else a @ ''/'' @ b)"

definition posix_basename :: "string \<Rightarrow> string" where
  "posix_basename p = drop (nat (rfind p (CHR ''/'') + 1)) p"

definition relpath_below :: "string \<Rightarrow> string \<Rightarrow> string" where
  "relpath_below path start = drop (length start + 1) path"

definition posix_env :: env where
  "posix_env =
     \<lparr>win32 = False, rng = (\<lambda>i. i), os_call = (\<lambda>h c. None),
      path_join = posix_join, basename = posix_basename, abspath = (\<lambda>p. p),
      relpath = relpath_below, isdir = (\<lambda>p. True),
      walk = (\<lambda>r. [(r, [''a.txt'', ''b.txt''])]),
      script_file = ''/opt/random_rename.py'', stamp = ''20240101_120000''\<rparr>"

text \<open>The options of a run without command-line flags.\<close>

definition no_args :: args where
  "no_args =
     \<lparr>arg_folder = None, arg_length = 10, arg_no_letters = False, arg_no_digits = False,
      arg_special = False, arg_dry_run = False, arg_no_log = False,
      arg_include_script = False, arg_exclude = None, arg_exclude_ext = None,
      arg_max_depth = None, arg_short_name = False\<rparr>"

definition default_options :: options where
  "default_options = make_options no_args"

text \<open>The same platform with the answers of the operating system scripted: the
  \<open>i\<close>-th call of the run gets the \<open>i\<close>-th answer of the list, later calls succeed.\<close>

definition scripted_env :: "bool \<Rightarrow> pyexc option list \<Rightarrow> env" where
  "scripted_env on_win32 answers =
     posix_env\<lparr>win32 := on_win32,
               os_call := (\<lambda>h c. if length h < length answers then answers ! length h
                                  else None)\<rparr>"

text \<open>A platform whose random generator draws the dot of the special characters as
  the second character of the first name, in a directory that holds one file without
  an extension.\<close>

definition dotted_env :: env where
  "dotted_env =
     posix_env\<lparr>rng := (\<lambda>i. if i = 1 then 84 else 0),
               walk := (\<lambda>r. [(r, [''README''])])\<rparr>"

text \<open>The same platform with one file whose extension is in upper case.\<close>

definition upper_env :: env where
  "upper_env = posix_env\<lparr>walk := (\<lambda>r. [(r, [''a.TXT''])])\<rparr>"

section \<open>The metadata scanner (\<^verbatim>\<open>backend/extract.py\<close>)\<close>

subsection \<open>Values, and what the libraries answer\<close>

text \<open>
  The values the scanner puts into its dictionaries. A dictionary is an association
  list in insertion order; the keys of the EXIF dictionary are tag names or, for a tag
  without a name, the tag number.
\<close>

datatype pyval =
    PStr string
  | PInt int
  | PBool bool
  | PList "pyval list"
  | PDict "(pyval \<times> pyval) list"

type_synonym pydict = "(pyval \<times> pyval) list"

text \<open>
  \<^verbatim>\<open>os.stat\<close>: the time stamps are floating-point seconds in Python; the scanner only
  hands them to \<^verbatim>\<open>datetime.fromtimestamp\<close>, so the model keeps them as numbers it never
  computes with. \<open>st_birthtime\<close> is absent on platforms that do not have it.
\<close>

record stat_result =
  st_size :: int
  st_birthtime :: "int option"
  st_ctime :: int
  st_mtime :: int
  st_uid :: int

text \<open>What a \<^verbatim>\<open>PdfReader\<close> answers: every attribute access may raise.\<close>

record doc_info =
  title :: "string option"
  author :: "string option"
  subject :: "string option"
  raw_entries :: "(string \<times> string) list"     \<comment> \<open>what \<^verbatim>\<open>doc_info.get(key, '')\<close> reads\<close>

record pdf_reader =
  pages_len :: "pyexc + nat"                  \<comment> \<open>\<^verbatim>\<open>len(reader.pages)\<close>\<close>
  metadata :: "pyexc + doc_info option"       \<comment> \<open>\<^verbatim>\<open>reader.metadata\<close>, possibly \<^verbatim>\<open>None\<close>\<close>
  pdf_header_version :: "string option"       \<comment> \<open>absent when \<^verbatim>\<open>hasattr\<close> says no\<close>
  is_encrypted :: "pyexc + bool"

text \<open>What a Pillow image answers. The resolution is a pair of integers here; Pillow
  may give fractions, which Python prints with their decimals.\<close>

record image =
  width :: int
  height :: int
  mode :: string
  info_dpi :: "(int \<times> int) option"            \<comment> \<open>\<^verbatim>\<open>img.info.get('dpi')\<close>\<close>
  info_icc_profile :: "string option"         \<comment> \<open>\<^verbatim>\<open>img.info.get('icc_profile')\<close>\<close>
  getexif :: "pyexc + (int \<times> pyval) list option"
      \<comment> \<open>\<^verbatim>\<open>img._getexif()\<close>: raises where the format has no such method\<close>

record scan_env =
  scan_win32 :: bool
  scan_walk :: "string \<Rightarrow> (string \<times> string list) list"
  scan_join :: "string \<Rightarrow> string \<Rightarrow> string"
  scan_basename :: "string \<Rightarrow> string"
  os_stat :: "string \<Rightarrow> pyexc + stat_result"
  isoformat :: "int \<Rightarrow> pyexc + string"
      \<comment> \<open>\<^verbatim>\<open>datetime.fromtimestamp(t).isoformat()\<close>\<close>
  pw_name :: "int \<Rightarrow> pyexc + string"
      \<comment> \<open>\<^verbatim>\<open>import pwd; pwd.getpwuid(uid).pw_name\<close>\<close>
  open_pdf :: "string \<Rightarrow> pyexc + pdf_reader"
      \<comment> \<open>\<^verbatim>\<open>open(file_path, 'rb')\<close> and \<^verbatim>\<open>PdfReader(f)\<close>\<close>
  open_image :: "string \<Rightarrow> pyexc + image"   \<comment> \<open>\<^verbatim>\<open>Image.open(file_path)\<close>\<close>
  exif_tags :: "int \<Rightarrow> string option"         \<comment> \<open>the table \<^verbatim>\<open>PIL.ExifTags.TAGS\<close>\<close>

text \<open>Sequencing of calls that may raise: the first exception ends the block.\<close>

definition and_then :: "pyexc + 'a \<Rightarrow> ('a \<Rightarrow> pyexc + 'b) \<Rightarrow> pyexc + 'b" where
  "and_then r k = (case r of Inl x \<Rightarrow> Inl x | Inr v \<Rightarrow> k v)"

subsection \<open>String helpers\<close>

text \<open>\<^verbatim>\<open>s.split(',')\<close>, \<^verbatim>\<open>s.strip()\<close> and \<^verbatim>\<open>str(n)\<close> for an integer. Of the
  characters that \<^verbatim>\<open>str.strip\<close> removes the model knows the six ASCII blanks; Python
  also removes the separators 0x1C to 0x1F and the blanks beyond ASCII.\<close>

fun split_on :: "char \<Rightarrow> string \<Rightarrow> string list" where
  "split_on c [] = [[]]"
| "split_on c (x # xs) =
     (if x = c then [] # split_on c xs
      else (case split_on c xs of
              [] \<Rightarrow> [[x]]
            | w # ws \<Rightarrow> (x # w) # ws))"

definition is_space :: "char \<Rightarrow> bool" where
  "is_space c \<longleftrightarrow> c \<in> set [CHR '' '', CHR 0x09, CHR 0x0A, CHR 0x0B, CHR 0x0C, CHR 0x0D]"

definition strip :: "string \<Rightarrow> string" where
  "strip s = rev (dropWhile is_space (rev (dropWhile is_space s)))"

fun str_nat :: "nat \<Rightarrow> string" where
  "str_nat n =
     (if n < 10 then [digits ! n] else str_nat (n div 10) @ [digits ! (n mod 10)])"

definition str_int :: "int \<Rightarrow> string" where
  "str_int i = (if i < 0 then ''-'' @ str_nat (nat (- i)) else str_nat (nat i))"

subsection \<open>\<^verbatim>\<open>get_file_info\<close>\<close>

text \<open>
  The dictionary \<^verbatim>\<open>file_info\<close> has a fixed set of keys, so it is a record; the two
  keys that \<^verbatim>\<open>map_folder\<close> may add are optional fields. \<^verbatim>\<open>os.stat\<close> and the
  formatting of the time stamps are outside every \<^verbatim>\<open>try\<close>: what they raise leaves
  the function.
\<close>

record file_record =
  filename :: string
  file_path :: string
  file_type :: string
  file_size :: int
  date_created :: string
  date_modified :: string
  added_by :: string
  tags :: "pyval list"
  content_summary :: string
  pdf_metadata :: "pydict option"
  image_metadata :: "pydict option"

definition get_file_info :: "scan_env \<Rightarrow> string \<Rightarrow> pyexc + file_record" where
  "get_file_info e path =
     and_then (os_stat e path) (\<lambda>stat.
       let creation_time = (case st_birthtime stat of
                              Some t \<Rightarrow> t
                            | None \<Rightarrow> st_ctime stat);
           added = (case pw_name e (st_uid stat) of
                      Inr user \<Rightarrow> user @ ''@example.com''
                    | Inl x \<Rightarrow> [])
       in and_then (isoformat e creation_time) (\<lambda>created.
          and_then (isoformat e (st_mtime stat)) (\<lambda>modified.
            Inr \<lparr>filename = scan_basename e path,
                 file_path = path,
                 file_type = lower (snd (splitext (scan_win32 e) path)),
                 file_size = st_size stat,
                 date_created = created,
                 date_modified = modified,
                 added_by = added,
                 tags = [],
                 content_summary = [],
                 pdf_metadata = None,
                 image_metadata = None\<rparr>)))"

subsection \<open>\<^verbatim>\<open>get_pdf_metadata\<close>\<close>

definition entry :: "doc_info option \<Rightarrow> string \<Rightarrow> string" where
  \<comment> \<open>\<^verbatim>\<open>doc_info.get(key, '') if doc_info else ''\<close>\<close>
  "entry info key =
     (case info of
        None \<Rightarrow> []
      | Some i \<Rightarrow> (case map_of (raw_entries i) key of None \<Rightarrow> [] | Some v \<Rightarrow> v))"

definition attribute :: "doc_info option \<Rightarrow> (doc_info \<Rightarrow> string option) \<Rightarrow> string" where
  \<comment> \<open>\<^verbatim>\<open>doc_info.title if doc_info and doc_info.title else ''\<close>\<close>
  "attribute info field =
     (case info of
        None \<Rightarrow> []
      | Some i \<Rightarrow> (case field i of None \<Rightarrow> [] | Some v \<Rightarrow> v))"

text \<open>The body of the \<^verbatim>\<open>try\<close> block, lines 37 to 55.\<close>

definition pdf_try :: "scan_env \<Rightarrow> string \<Rightarrow> pyexc + pydict" where
  "pdf_try e path =
     and_then (open_pdf e path) (\<lambda>reader.
     and_then (pages_len reader) (\<lambda>page_count.
     and_then (metadata reader) (\<lambda>info.
       let keywords = entry info ''/Keywords''
       in and_then (is_encrypted reader) (\<lambda>encrypted.
            Inr [(PStr ''page_count'', PInt (int page_count)),
                 (PStr ''document_title'', PStr (attribute info title)),
                 (PStr ''author'', PStr (attribute info author)),
                 (PStr ''subject'', PStr (attribute info subject)),
                 (PStr ''keywords'',
                    PList (if keywords \<noteq> []
                           then map (\<lambda>kw. PStr (strip kw)) (split_on (CHR '','') keywords)
                           else [])),
                 (PStr ''producer'', PStr (entry info ''/Producer'')),
                 (PStr ''creation_date'', PStr (entry info ''/CreationDate'')),
                 (PStr ''modification_date'', PStr (entry info ''/ModDate'')),
                 (PStr ''pdf_version'',
                    PStr (case pdf_header_version reader of None \<Rightarrow> [] | Some v \<Rightarrow> v)),
                 (PStr ''font_usage'', PStr ''Unknown''),
                 (PStr ''color_profile'', PStr ''sRGB''),
                 (PStr ''tagged_pdf'', PBool False),
                 (PStr ''encryption_status'',
                    PStr (if encrypted then ''Encrypted'' else ''None''))]))))"

text \<open>\<^verbatim>\<open>except Exception: metadata = {}\<close>.\<close>

definition get_pdf_metadata :: "scan_env \<Rightarrow> string \<Rightarrow> pydict" where
  "get_pdf_metadata e path = (case pdf_try e path of Inl x \<Rightarrow> [] | Inr m \<Rightarrow> m)"

subsection \<open>\<^verbatim>\<open>get_image_metadata\<close>\<close>

text \<open>The loop of lines 73 to 75 over the items of the EXIF data.\<close>

fun exif_dict :: "(int \<Rightarrow> string option) \<Rightarrow> (int \<times> pyval) list \<Rightarrow> pydict \<Rightarrow> pydict" where
  "exif_dict names [] exif = exif"
| "exif_dict names ((tag, v) # items) exif =
     exif_dict names items
       (AList.update (case names tag of None \<Rightarrow> PInt tag | Some n \<Rightarrow> PStr n) v exif)"

text \<open>The body of the \<^verbatim>\<open>try\<close> block, lines 64 to 79.\<close>

definition image_try :: "scan_env \<Rightarrow> string \<Rightarrow> pyexc + pydict" where
  "image_try e path =
     and_then (open_image e path) (\<lambda>img.
       let dpi = (case info_dpi img of None \<Rightarrow> (0, 0) | Some p \<Rightarrow> p)
       in and_then (getexif img) (\<lambda>exif_data.
            Inr [(PStr ''dimensions'',
                    PDict [(PStr ''width'', PInt (width img)),
                           (PStr ''height'', PInt (height img))]),
                 (PStr ''color_mode'', PStr (mode img)),
                 (PStr ''resolution'',
                    PStr (if fst dpi \<noteq> 0 then str_int (fst dpi) @ '' DPI'' else [])),
                 (PStr ''exif'',
                    PDict (case exif_data of
                             None \<Rightarrow> []
                           | Some items \<Rightarrow>
                               if items \<noteq> [] then exif_dict (exif_tags e) items [] else [])),
                 (PStr ''ICC_profile'',
                    PStr (case info_icc_profile img of None \<Rightarrow> [] | Some b \<Rightarrow> b))]))"

definition get_image_metadata :: "scan_env \<Rightarrow> string \<Rightarrow> pydict" where
  "get_image_metadata e path = (case image_try e path of Inl x \<Rightarrow> [] | Inr m \<Rightarrow> m)"

subsection \<open>\<^verbatim>\<open>map_folder\<close>\<close>

text \<open>The body of the inner loop, lines 89 to 96, for one file.\<close>

definition scan_file :: "scan_env \<Rightarrow> string \<Rightarrow> string \<Rightarrow> pyexc + file_record" where
  "scan_file e dir file =
     (let full_path = scan_join e dir file
      in and_then (get_file_info e full_path) (\<lambda>file_data.
           let ext = file_type file_data
           in if ext = ''.pdf''
              then Inr (file_data\<lparr>pdf_metadata := Some (get_pdf_metadata e full_path)\<rparr>)
              else if ext \<in> set [''.jpg'', ''.jpeg'', ''.png'']
              then Inr (file_data\<lparr>image_metadata := Some (get_image_metadata e full_path)\<rparr>)
              else Inr file_data))"

fun scan_files :: "scan_env \<Rightarrow> string \<Rightarrow> string list \<Rightarrow> file_record list
                     \<Rightarrow> pyexc + file_record list" where
  "scan_files e dir [] files_list = Inr files_list"
| "scan_files e dir (file # rest) files_list =
     and_then (scan_file e dir file) (\<lambda>file_data.
       scan_files e dir rest (files_list @ [file_data]))"

fun scan_dirs :: "scan_env \<Rightarrow> (string \<times> string list) list \<Rightarrow> file_record list
                    \<Rightarrow> pyexc + file_record list" where
  "scan_dirs e [] files_list = Inr files_list"
| "scan_dirs e ((dir, names) # rest) files_list =
     and_then (scan_files e dir names files_list) (\<lambda>files_list'.
       scan_dirs e rest files_list')"

text \<open>The result is the list under the key \<^verbatim>\<open>files\<close> of the returned dictionary.\<close>

definition map_folder :: "scan_env \<Rightarrow> string \<Rightarrow> pyexc + file_record list" where
  "map_folder e folder_path = scan_dirs e (scan_walk e folder_path) []"

text \<open>The paths a walk visits, in order.\<close>

definition walked_paths :: "(string \<times> string list) list \<Rightarrow> (string \<times> string) list" where
  "walked_paths w = concat (map (\<lambda>(dir, names). map (\<lambda>file. (dir, file)) names) w)"

text \<open>
  A folder for the examples: a PDF file that PyPDF2 cannot read, a PNG image (Pillow's
  PNG images have no \<^verbatim>\<open>_getexif\<close>) and a text file.
\<close>

definition scan_example :: scan_env where
  "scan_example =
     \<lparr>scan_win32 = False,
      scan_walk = (\<lambda>r. [(r, [''broken.pdf'', ''logo.PNG'', ''notes.txt''])]),
      scan_join = posix_join,
      scan_basename = posix_basename,
      os_stat = (\<lambda>p. Inr \<lparr>st_size = 12, st_birthtime = None, st_ctime = 1700000000,
                           st_mtime = 1700000500, st_uid = 1000\<rparr>),
      isoformat = (\<lambda>t. Inr (if t = 1700000000 then ''2023-11-14T22:13:20''
                             else ''2023-11-14T22:21:40'')),
      pw_name = (\<lambda>uid. Inl OtherException),
      open_pdf = (\<lambda>p. Inl OtherException),
      open_image = (\<lambda>p. Inr \<lparr>width = 4, height = 3, mode = ''RGB'', info_dpi = None,
                              info_icc_profile = None, getexif = Inl AttributeError\<rparr>),
      exif_tags = (\<lambda>t. None)\<rparr>"

section \<open>Properties of the renamer\<close>

subsection \<open>Evaluating the examples\<close>

lemma posix_env_sel:
  "win32 posix_env = False" "rng posix_env = (\<lambda>i. i)" "os_call posix_env = (\<lambda>h c. None)"
  "path_join posix_env = posix_join" "basename posix_env = posix_basename"
  "abspath posix_env = (\<lambda>p. p)" "relpath posix_env = relpath_below"
  "isdir posix_env = (\<lambda>p. True)"
  "walk posix_env = (\<lambda>r. [(r, [''a.txt'', ''b.txt''])])"
  "script_file posix_env = ''/opt/random_rename.py''" "stamp posix_env = ''20240101_120000''"
  by (simp_all add: posix_env_def)

lemma default_options_sel:
  "name_length default_options = 10" "use_letters default_options"
  "use_digits default_options" "\<not> use_special default_options"
  "\<not> dry_run default_options" "create_log default_options"
  "exclude_script default_options" "exclude_patterns default_options = None"
  "exclude_extensions default_options = None"
  by (simp_all add: default_options_def make_options_def no_args_def)

lemmas eval_defs =
  posix_join_def posix_basename_def relpath_below_def rename_files_recursively_def
  init_state_def start_state_def process_file_def should_exclude_file_def excluded_def
  name_for_def
  enter_dir_def splitext_def splitext_generic_def rfind_def lower_def lower_char_def
  ascii_uppercase_def ascii_lowercase_def digits_def special_chars_def alphabet_def
  generate_random_name_def names_in_def safe_rename_def perform_def store_mapping_def
  Let_def upt_rec

subsection \<open>The fields that \<open>store_mapping\<close> touches\<close>

lemma store_mapping_fields [simp]:
  "used_names_by_dir (store_mapping e opts root old new st) = used_names_by_dir st"
  "total (store_mapping e opts root old new st) = total st"
  "renamed (store_mapping e opts root old new st) = renamed st"
  "skipped (store_mapping e opts root old new st) = skipped st"
  "errors (store_mapping e opts root old new st) = errors st"
  "rng_pos (store_mapping e opts root old new st) = rng_pos st"
  "calls (store_mapping e opts root old new st) = calls st"
  "renamed_files (store_mapping e opts root old new st) =
     AList.update (relpath e old root) (relpath e new root) (renamed_files st)"
  "log_files (store_mapping e opts root old new st) =
     (if create_log opts
      then AList.update (relpath e old root) (relpath e new root) (log_files st)
      else log_files st)"
  by (simp_all add: store_mapping_def Let_def)

subsection \<open>The outcomes of one file\<close>

lemma process_file_cases:
  assumes "process_file e opts root d f st = Some st'"
  obtains
    (skip) "excluded e opts d f"
      "st' = st\<lparr>total := total st + 1, skipped := skipped st + 1\<rparr>"
  | (dry) n u pos where "\<not> excluded e opts d f" "dry_run opts"
      "name_for e opts d f (st\<lparr>total := total st + 1\<rparr>) = Some (n, u, pos)"
      "st' = store_mapping e opts root (path_join e d f) (path_join e d n)
               (st\<lparr>total := total st + 1, used_names_by_dir := u, rng_pos := pos\<rparr>)"
  | (success) n u pos h where "\<not> excluded e opts d f" "\<not> dry_run opts"
      "name_for e opts d f (st\<lparr>total := total st + 1\<rparr>) = Some (n, u, pos)"
      "safe_rename e (calls st) (path_join e d f) (path_join e d n) = (True, h)"
      "st' = store_mapping e opts root (path_join e d f) (path_join e d n)
               (st\<lparr>total := total st + 1, used_names_by_dir := u, rng_pos := pos,
                   calls := h, renamed := renamed st + 1\<rparr>)"
  | (fail) n u pos h where "\<not> excluded e opts d f" "\<not> dry_run opts"
      "name_for e opts d f (st\<lparr>total := total st + 1\<rparr>) = Some (n, u, pos)"
      "safe_rename e (calls st) (path_join e d f) (path_join e d n) = (False, h)"
      "st' = st\<lparr>total := total st + 1, used_names_by_dir := u, rng_pos := pos,
                 calls := h, errors := errors st + 1\<rparr>"
proof (cases "excluded e opts d f")
  case True
  with assms have "st' = st\<lparr>total := total st + 1, skipped := skipped st + 1\<rparr>"
    by (simp add: process_file_def Let_def)
  with True show ?thesis by (rule skip)
next
  case False
  with assms obtain n u pos
    where nf: "name_for e opts d f (st\<lparr>total := total st + 1\<rparr>) = Some (n, u, pos)"
    by (auto simp: process_file_def Let_def split: option.splits)
  show ?thesis
  proof (cases "dry_run opts")
    case True
    with assms False nf show ?thesis
      by (intro dry[of n u pos]) (simp_all add: process_file_def Let_def)
  next
    case nd: False
    obtain ok h where sr: "safe_rename e (calls st) (path_join e d f) (path_join e d n) = (ok, h)"
      by (cases "safe_rename e (calls st) (path_join e d f) (path_join e d n)")
    show ?thesis
    proof (cases ok)
      case True
      with assms False nf nd sr show ?thesis
        by (intro success[of n u pos h]) (simp_all add: process_file_def Let_def)
    next
      case ff: False
      with assms False nf nd sr show ?thesis
        by (intro fail[of n u pos h]) (simp_all add: process_file_def Let_def)
    qed
  qed
qed

lemma name_for_total [simp]:
  "name_for e opts d f (st\<lparr>total := t\<rparr>) = name_for e opts d f st"
  by (simp add: name_for_def)

lemma process_file_counters:
  assumes "process_file e opts root d f st = Some st'"
  shows "total st' = total st + 1"
    and "renamed st \<le> renamed st'" and "skipped st \<le> skipped st'"
    and "errors st \<le> errors st'"
    and "\<not> dry_run opts \<Longrightarrow>
           renamed st' + skipped st' + errors st' = renamed st + skipped st + errors st + 1"
  using assms by (cases rule: process_file_cases; simp)+

lemma process_files_counters:
  assumes "process_files e opts root d fs st = Some st'"
  shows "total st' = total st + length fs \<and> renamed st \<le> renamed st' \<and>
         skipped st \<le> skipped st' \<and> errors st \<le> errors st' \<and>
         (\<not> dry_run opts \<longrightarrow>
            renamed st' + skipped st' + errors st' =
            renamed st + skipped st + errors st + length fs)"
  using assms
proof (induction fs arbitrary: st)
  case Nil
  then show ?case by simp
next
  case (Cons f fs)
  from Cons.prems obtain st1 where s1: "process_file e opts root d f st = Some st1"
    and rest: "process_files e opts root d fs st1 = Some st'"
    by (auto split: option.splits)
  from process_file_counters[OF s1] Cons.IH[OF rest] show ?case
    by auto
qed

lemma enter_dir_fields [simp]:
  "total (enter_dir d st) = total st" "renamed (enter_dir d st) = renamed st"
  "skipped (enter_dir d st) = skipped st" "errors (enter_dir d st) = errors st"
  "rng_pos (enter_dir d st) = rng_pos st" "calls (enter_dir d st) = calls st"
  "renamed_files (enter_dir d st) = renamed_files st" "log_files (enter_dir d st) = log_files st"
  "names_in (used_names_by_dir (enter_dir d st)) d' = names_in (used_names_by_dir st) d'"
  by (auto simp: enter_dir_def names_in_def split: option.splits)

lemma walk_loop_counters:
  assumes "walk_loop e opts root w st = Some st'"
  shows "total st' = total st + file_count w \<and> renamed st \<le> renamed st' \<and>
         skipped st \<le> skipped st' \<and> errors st \<le> errors st' \<and>
         (\<not> dry_run opts \<longrightarrow>
            renamed st' + skipped st' + errors st' =
            renamed st + skipped st + errors st + file_count w)"
  using assms
proof (induction w arbitrary: st)
  case Nil
  then show ?case by (simp add: file_count_def)
next
  case (Cons p w)
  obtain d fs where p: "p = (d, fs)" by (cases p)
  from Cons.prems p obtain st1
    where s1: "process_files e opts root d fs (enter_dir d st) = Some st1"
      and rest: "walk_loop e opts root w st1 = Some st'"
    by (auto split: option.splits)
  from process_files_counters[OF s1] Cons.IH[OF rest] p show ?case
    by (auto simp: file_count_def)
qed

lemma start_state_fields [simp]:
  "renamed_files (start_state e) = []" "used_names_by_dir (start_state e) = Map.empty"
  "log_files (start_state e) = []" "total (start_state e) = 0" "renamed (start_state e) = 0"
  "skipped (start_state e) = 0" "errors (start_state e) = 0" "rng_pos (start_state e) = 0"
  "calls (start_state e) =
     (if win32 e then [(EnableLongPaths, os_call e [] EnableLongPaths)] else [])"
  by (simp_all add: start_state_def init_state_def perform_def Let_def)

lemma rename_files_recursively_cases:
  assumes "rename_files_recursively e root opts = Some (Inr fin)"
  obtains st where "walk_loop e opts root (walk e root) (start_state e) = Some st"
    and "fin = st \<or> (\<exists>h. fin = st\<lparr>calls := h\<rparr> \<and> \<not> dry_run opts)"
    and "dry_run opts \<Longrightarrow> fin = st"
  using assms
  by (auto simp: rename_files_recursively_def Let_def
           split: if_splits option.splits prod.splits)

lemma scripted_env_sel:
  "win32 (scripted_env w a) = w" "rng (scripted_env w a) = (\<lambda>i. i)"
  "os_call (scripted_env w a) = (\<lambda>h c. if length h < length a then a ! length h else None)"
  "path_join (scripted_env w a) = posix_join" "basename (scripted_env w a) = posix_basename"
  "abspath (scripted_env w a) = (\<lambda>p. p)" "relpath (scripted_env w a) = relpath_below"
  "isdir (scripted_env w a) = (\<lambda>p. True)"
  "walk (scripted_env w a) = (\<lambda>r. [(r, [''a.txt'', ''b.txt''])])"
  "script_file (scripted_env w a) = ''/opt/random_rename.py''"
  "stamp (scripted_env w a) = ''20240101_120000''"
  by (simp_all add: scripted_env_def posix_env_def)

lemma unique_name_first:
  "unique_name (scripted_env w a) default_options ''.txt'' ''/r'' [''/r'' \<mapsto> {}] 0 =
     Some (''abcdefghij.txt'', [''/r'' \<mapsto> {''abcdefghij.txt''}], 10)"
  by (subst unique_name.simps) (simp add: eval_defs scripted_env_sel default_options_sel)

lemma unique_name_second:
  "unique_name (scripted_env w a) default_options ''.txt'' ''/r''
     [''/r'' \<mapsto> {''abcdefghij.txt''}] 10 =
     Some (''klmnopqrst.txt'', [''/r'' \<mapsto> {''klmnopqrst.txt'', ''abcdefghij.txt''}], 20)"
  by (subst unique_name.simps) (simp add: eval_defs scripted_env_sel default_options_sel)

lemma safe_rename_events:
  assumes "safe_rename e h old_path new_path = (ok, h')"
  shows "h' = h @ new_events h h'" and "new_events h h' \<noteq> []"
    and "prefix (map fst (new_events h h')) (tier_calls e old_path new_path)"
    and "1 < length (new_events h h') \<longrightarrow>
            snd (new_events h h' ! 0) = Some FileNotFoundError \<and> win32 e"
    and "2 < length (new_events h h') \<longrightarrow> snd (new_events h h' ! 1) \<noteq> None"
    and "3 < length (new_events h h') \<longrightarrow> snd (new_events h h' ! 2) = None"
    and "ok \<longleftrightarrow> snd (last (new_events h h')) = None"
  using assms
  by (auto simp: safe_rename_def perform_def Let_def tier_calls_def new_events_def nth_append
           split: option.splits pyexc.splits if_splits)

lemma safe_rename_escalates:
  assumes "safe_rename e h old_path new_path = (ok, h')"
  shows "1 < length (new_events h h') \<longleftrightarrow>
           snd (new_events h h' ! 0) = Some FileNotFoundError \<and> win32 e"
    and "2 < length (new_events h h') \<longleftrightarrow>
           1 < length (new_events h h') \<and> snd (new_events h h' ! 1) \<noteq> None"
    and "3 < length (new_events h h') \<longleftrightarrow>
           2 < length (new_events h h') \<and> snd (new_events h h' ! 2) = None"
    and "length (new_events h h') \<le> 4"
  using assms
  by (auto simp: safe_rename_def perform_def Let_def new_events_def nth_append
           split: option.splits pyexc.splits if_splits)

lemma safe_rename_answers:
  assumes "safe_rename e h old_path new_path = (ok, h')"
    and "i < length (new_events h h')"
  shows "snd (new_events h h' ! i) =
           os_call e (h @ take i (new_events h h')) (fst (new_events h h' ! i))"
proof -
  from safe_rename_escalates(4)[OF assms(1)] assms(2) have "i < 4" by simp
  then consider "i = 0" | "i = 1" | "i = 2" | "i = 3" by linarith
  then show ?thesis
    using assms
    by cases
       (auto simp: safe_rename_def perform_def Let_def new_events_def nth_append
             split: option.splits pyexc.splits if_splits)
qed

subsection \<open>The tiers of a rename\<close>

text \<open>
  Claim C2, as amended. Whenever a file's rename is attempted (the file is not
  excluded, the run is not a dry run and a new name has been found), the calls made
  for it are a non-empty prefix of the tier calls in the order direct rename,
  long-path rename, copy, remove, each answered by the operating system at the
  history reached. The long-path rename is tried exactly when the platform is win32 and
  the direct rename raised \<^verbatim>\<open>FileNotFoundError\<close>; the copy is tried exactly when the
  long-path rename was tried and raised; the remove exactly when the copy was tried and
  returned. So on win32 a direct rename that cannot find the file escalates through the
  tiers, while any other exception of the direct rename, and \<^verbatim>\<open>FileNotFoundError\<close>
  elsewhere, end the attempt after one call. The file is counted as an error exactly
  when the last call made for it raised.
\<close>

theorem rename_attempt_tiers:
  assumes "\<not> excluded e opts d f" and "\<not> dry_run opts"
    and "name_for e opts d f st = Some (n, u, pos)"
  shows "\<exists>st' evs. process_file e opts root d f st = Some st' \<and>
           calls st' = calls st @ evs \<and> evs \<noteq> [] \<and>
           prefix (map fst evs) (tier_calls e (path_join e d f) (path_join e d n)) \<and>
           (\<forall>i<length evs.
              snd (evs ! i) = os_call e (calls st @ take i evs) (fst (evs ! i))) \<and>
           (1 < length evs \<longleftrightarrow> snd (evs ! 0) = Some FileNotFoundError \<and> win32 e) \<and>
           (2 < length evs \<longleftrightarrow> 1 < length evs \<and> snd (evs ! 1) \<noteq> None) \<and>
           (3 < length evs \<longleftrightarrow> 2 < length evs \<and> snd (evs ! 2) = None) \<and>
           errors st' = errors st + (if snd (last evs) = None then 0 else 1)"
proof -
  obtain ok h where sr: "safe_rename e (calls st) (path_join e d f) (path_join e d n) = (ok, h)"
    by (cases "safe_rename e (calls st) (path_join e d f) (path_join e d n)")
  let ?evs = "new_events (calls st) h"
  obtain st' where pf: "process_file e opts root d f st = Some st'"
    and c: "calls st' = h" and er: "errors st' = errors st + (if ok then 0 else 1)"
    using assms sr by (cases ok) (simp_all add: process_file_def Let_def)
  note ev = safe_rename_events[OF sr]
  note es = safe_rename_escalates[OF sr]
  from ev(1) c have a: "calls st' = calls st @ ?evs" by simp
  from er ev(7) have b: "errors st' = errors st + (if snd (last ?evs) = None then 0 else 1)"
    by simp
  have an: "\<forall>i<length ?evs.
              snd (?evs ! i) = os_call e (calls st @ take i ?evs) (fst (?evs ! i))"
    using safe_rename_answers[OF sr] by blast
  show ?thesis
    by (intro exI[of _ st'] exI[of _ ?evs] conjI pf a ev(2) ev(3) an es(1) es(2) es(3) b)
qed

text \<open>On win32, with the direct rename raising \<^verbatim>\<open>FileNotFoundError\<close>, the long-path
  rename and the copy raising too: three calls, one error.\<close>

theorem rename_attempt_tiers_witness:
  "\<not> excluded (scripted_env True [Some FileNotFoundError, Some OSError, Some PermissionError])
       default_options ''/r'' ''a.txt'' \<and>
   \<not> dry_run default_options \<and>
   name_for (scripted_env True [Some FileNotFoundError, Some OSError, Some PermissionError])
      default_options ''/r'' ''a.txt'' (enter_dir ''/r'' init_state) =
     Some (''abcdefghij.txt'', [''/r'' \<mapsto> {''abcdefghij.txt''}], 10) \<and>
   (\<exists>st' evs. process_file
        (scripted_env True [Some FileNotFoundError, Some OSError, Some PermissionError])
        default_options ''/r'' ''/r'' ''a.txt'' (enter_dir ''/r'' init_state) = Some st' \<and>
      calls st' = calls (enter_dir ''/r'' init_state) @ evs \<and> length evs = 3 \<and>
      errors st' = errors (enter_dir ''/r'' init_state) + 1)"
proof -
  let ?e = "scripted_env True [Some FileNotFoundError, Some OSError, Some PermissionError]"
  let ?st = "enter_dir ''/r'' init_state"
  have h1: "\<not> excluded ?e default_options ''/r'' ''a.txt''"
    by (simp add: eval_defs scripted_env_sel default_options_sel)
  have h2: "\<not> dry_run default_options"
    by (simp add: default_options_sel)
  have h3: "name_for ?e default_options ''/r'' ''a.txt'' ?st =
              Some (''abcdefghij.txt'', [''/r'' \<mapsto> {''abcdefghij.txt''}], 10)"
    by (simp add: name_for_def enter_dir_def init_state_def scripted_env_sel unique_name_first
          splitext_def splitext_generic_def rfind_def Let_def upt_rec)
  have ev: "process_file ?e default_options ''/r'' ''/r'' ''a.txt'' ?st = Some st' \<Longrightarrow>
      calls st' =
        [(OsRename ''/r/a.txt'' ''/r/abcdefghij.txt'', Some FileNotFoundError),
         (OsRename (long_prefix @ ''/r/a.txt'') (long_prefix @ ''/r/abcdefghij.txt''),
          Some OSError),
         (Copy2 ''/r/a.txt'' ''/r/abcdefghij.txt'', Some PermissionError)]" for st'
    by (auto simp: eval_defs scripted_env_sel default_options_sel unique_name_first)
  from rename_attempt_tiers[OF h1 h2 h3, of "''/r''"]
  obtain st' evs where pf: "process_file ?e default_options ''/r'' ''/r'' ''a.txt'' ?st = Some st'"
    and c: "calls st' = calls ?st @ evs"
    and er: "errors st' = errors ?st + (if snd (last evs) = None then 0 else 1)"
    by blast
  from ev[OF pf] c
  have evs: "evs = [(OsRename ''/r/a.txt'' ''/r/abcdefghij.txt'', Some FileNotFoundError),
          (OsRename (long_prefix @ ''/r/a.txt'') (long_prefix @ ''/r/abcdefghij.txt''), Some OSError),
          (Copy2 ''/r/a.txt'' ''/r/abcdefghij.txt'', Some PermissionError)]"
    by (simp add: enter_dir_def init_state_def)
  with er have "length evs = 3" "errors st' = errors ?st + 1" by simp_all
  with h1 h2 h3 pf c show ?thesis by blast
qed

text \<open>
  Claim C2 as stated fails: a direct rename that raises \<^verbatim>\<open>PermissionError\<close> is caught
  by the outer \<^verbatim>\<open>except Exception\<close>; the file is counted as an error after one call,
  neither the long-path rename nor the copy is tried.
\<close>

theorem rename_attempt_tiers_counterexample:
  "process_file (scripted_env False [Some PermissionError]) default_options ''/r'' ''/r''
     ''a.txt'' (enter_dir ''/r'' init_state) =
   Some \<lparr>renamed_files = [], used_names_by_dir = [''/r'' \<mapsto> {''abcdefghij.txt''}],
         log_files = [], total = 1, renamed = 0, skipped = 0, errors = 1, rng_pos = 10,
         calls = [(OsRename ''/r/a.txt'' ''/r/abcdefghij.txt'', Some PermissionError)]\<rparr>"
  by (simp add: eval_defs scripted_env_sel default_options_sel unique_name_first)

subsection \<open>Copy, then delete\<close>

text \<open>
  Claim C3. Among the calls \<open>safe_rename\<close> makes, a remove is a remove of the original,
  it is the last call, and the call just before it is the copy of the original to the
  new path, which returned. When the copy raises, \<open>safe_rename\<close> returns \<open>False\<close>, the
  failed copy is its last call, no remove has been issued and no rename has returned:
  the script has done nothing to the original.
\<close>

theorem copy_then_delete:
  assumes "safe_rename e h old_path new_path = (ok, h')"
  shows "(\<forall>p r. (OsRemove p, r) \<in> set (new_events h h') \<longrightarrow>
            p = old_path \<and>
            (\<exists>pre. new_events h h' =
                     pre @ [(Copy2 old_path new_path, None), (OsRemove old_path, r)])) \<and>
         (\<forall>a b x. (Copy2 a b, Some x) \<in> set (new_events h h') \<longrightarrow>
            \<not> ok \<and> last (new_events h h') = (Copy2 old_path new_path, Some x) \<and>
            (\<forall>p r. (OsRemove p, r) \<notin> set (new_events h h')) \<and>
            (\<forall>p q. (OsRename p q, None) \<notin> set (new_events h h')))"
  using assms
  by (auto simp: safe_rename_def perform_def Let_def new_events_def
           split: option.splits pyexc.splits if_splits)

text \<open>Both cases on win32: the copy raises, and the copy and the remove return.\<close>

theorem copy_then_delete_witness:
  "safe_rename (scripted_env True [Some FileNotFoundError, Some OSError, Some PermissionError])
     [] ''/r/a.txt'' ''/r/x.txt'' =
     (False, [(OsRename ''/r/a.txt'' ''/r/x.txt'', Some FileNotFoundError),
              (OsRename (long_prefix @ ''/r/a.txt'') (long_prefix @ ''/r/x.txt''), Some OSError),
              (Copy2 ''/r/a.txt'' ''/r/x.txt'', Some PermissionError)]) \<and>
   (\<forall>p r. (OsRemove p, r) \<notin> set (new_events []
              [(OsRename ''/r/a.txt'' ''/r/x.txt'', Some FileNotFoundError),
               (OsRename (long_prefix @ ''/r/a.txt'') (long_prefix @ ''/r/x.txt''), Some OSError),
               (Copy2 ''/r/a.txt'' ''/r/x.txt'', Some PermissionError)])) \<and>
   safe_rename (scripted_env True [Some FileNotFoundError, Some OSError, None, None])
     [] ''/r/a.txt'' ''/r/x.txt'' =
     (True, [(OsRename ''/r/a.txt'' ''/r/x.txt'', Some FileNotFoundError),
             (OsRename (long_prefix @ ''/r/a.txt'') (long_prefix @ ''/r/x.txt''), Some OSError),
             (Copy2 ''/r/a.txt'' ''/r/x.txt'', None), (OsRemove ''/r/a.txt'', None)]) \<and>
   (\<exists>pre. new_events []
             [(OsRename ''/r/a.txt'' ''/r/x.txt'', Some FileNotFoundError),
              (OsRename (long_prefix @ ''/r/a.txt'') (long_prefix @ ''/r/x.txt''), Some OSError),
              (Copy2 ''/r/a.txt'' ''/r/x.txt'', None), (OsRemove ''/r/a.txt'', None)] =
           pre @ [(Copy2 ''/r/a.txt'' ''/r/x.txt'', None), (OsRemove ''/r/a.txt'', None)])"
proof -
  let ?ev1 = "[(OsRename ''/r/a.txt'' ''/r/x.txt'', Some FileNotFoundError),
               (OsRename (long_prefix @ ''/r/a.txt'') (long_prefix @ ''/r/x.txt''), Some OSError),
               (Copy2 ''/r/a.txt'' ''/r/x.txt'', Some PermissionError)]"
  let ?ev2 = "[(OsRename ''/r/a.txt'' ''/r/x.txt'', Some FileNotFoundError),
               (OsRename (long_prefix @ ''/r/a.txt'') (long_prefix @ ''/r/x.txt''), Some OSError),
               (Copy2 ''/r/a.txt'' ''/r/x.txt'', None), (OsRemove ''/r/a.txt'', None)]"
  have r1: "safe_rename (scripted_env True [Some FileNotFoundError, Some OSError,
              Some PermissionError]) [] ''/r/a.txt'' ''/r/x.txt'' = (False, ?ev1)"
    by (simp add: safe_rename_def perform_def scripted_env_sel Let_def)
  have r2: "safe_rename (scripted_env True [Some FileNotFoundError, Some OSError, None, None])
              [] ''/r/a.txt'' ''/r/x.txt'' = (True, ?ev2)"
    by (simp add: safe_rename_def perform_def scripted_env_sel Let_def)
  have m1: "(Copy2 ''/r/a.txt'' ''/r/x.txt'', Some PermissionError) \<in> set (new_events [] ?ev1)"
    by (simp add: new_events_def)
  have m2: "(OsRemove ''/r/a.txt'', None) \<in> set (new_events [] ?ev2)"
    by (simp add: new_events_def)
  from copy_then_delete[OF r1] m1 have "\<forall>p r. (OsRemove p, r) \<notin> set (new_events [] ?ev1)"
    by blast
  moreover from copy_then_delete[OF r2] m2
  have "\<exists>pre. new_events [] ?ev2 =
           pre @ [(Copy2 ''/r/a.txt'' ''/r/x.txt'', None), (OsRemove ''/r/a.txt'', None)]"
    by blast
  ultimately show ?thesis using r1 r2 by blast
qed

subsection \<open>The counters\<close>

text \<open>
  Claim C9. In a run that is not a dry run, processing any list of files of a
  directory from any state adds their number to \<open>total\<close> and to the sum of \<open>renamed\<close>,
  \<open>skipped\<close> and \<open>errors\<close>, and lowers none of the counters; so after every file
  \<open>total = renamed + skipped + errors\<close> holds if it held before, as it does at the start.
  The counters returned by \<open>rename_files_recursively\<close> satisfy the equation, and
  \<open>total\<close> is the number of files of the walk.
\<close>

theorem counters_partition:
  assumes "\<not> dry_run opts"
  shows "(process_files e opts root d fs st = Some st' \<longrightarrow>
            total st' = total st + length fs \<and> renamed st \<le> renamed st' \<and>
            skipped st \<le> skipped st' \<and> errors st \<le> errors st' \<and>
            renamed st' + skipped st' + errors st' =
              renamed st + skipped st + errors st + length fs) \<and>
         (rename_files_recursively e root opts = Some (Inr fin) \<longrightarrow>
            total fin = renamed fin + skipped fin + errors fin \<and>
            total fin = file_count (walk e root))"
proof -
  have "total fin = renamed fin + skipped fin + errors fin \<and>
        total fin = file_count (walk e root)"
    if "rename_files_recursively e root opts = Some (Inr fin)"
    using that
  proof (cases rule: rename_files_recursively_cases)
    case (1 st)
    from walk_loop_counters[OF 1(1)] assms
    have "total st = renamed st + skipped st + errors st \<and> total st = file_count (walk e root)"
      by (simp add: init_state_def)
    with 1(2) show ?thesis by auto
  qed
  with process_files_counters[of e opts root d fs st st'] assms show ?thesis by blast
qed

text \<open>Two files, the second rename raising: one renamed, one error.\<close>

theorem counters_partition_witness:
  "\<not> dry_run default_options \<and>
   (\<exists>st'. process_files (scripted_env False [None, Some PermissionError]) default_options
             ''/r'' ''/r'' [''a.txt'', ''b.txt''] (enter_dir ''/r'' init_state) = Some st' \<and>
           total st' = 2 \<and> renamed st' = 1 \<and> skipped st' = 0 \<and> errors st' = 1) \<and>
   (\<exists>fin. rename_files_recursively (scripted_env False [None, Some PermissionError]) ''/r''
             default_options = Some (Inr fin) \<and>
           total fin = renamed fin + skipped fin + errors fin \<and> total fin = 2)"
proof -
  let ?e = "scripted_env False [None, Some PermissionError]"
  have nd: "\<not> dry_run default_options" by (simp add: default_options_sel)
  have "\<exists>st'. process_files ?e default_options ''/r'' ''/r'' [''a.txt'', ''b.txt'']
           (enter_dir ''/r'' init_state) = Some st' \<and> renamed st' = 1 \<and> errors st' = 1"
    by (simp add: eval_defs scripted_env_sel default_options_sel unique_name_first
          unique_name_second)
  then obtain st' where p: "process_files ?e default_options ''/r'' ''/r'' [''a.txt'', ''b.txt'']
           (enter_dir ''/r'' init_state) = Some st'" and v: "renamed st' = 1" "errors st' = 1"
    by blast
  have "\<exists>fin. rename_files_recursively ?e ''/r'' default_options = Some (Inr fin)"
    by (simp add: eval_defs scripted_env_sel default_options_sel unique_name_first
          unique_name_second)
  then obtain fin where r: "rename_files_recursively ?e ''/r'' default_options = Some (Inr fin)"
    by blast
  note t = counters_partition[OF nd, where e = ?e and root = "''/r''" and d = "''/r''"
             and fs = "[''a.txt'', ''b.txt'']" and st = "enter_dir ''/r'' init_state"
             and st' = st' and fin = fin]
  from t p v have "total st' = 2 \<and> skipped st' = 0"
    by (simp add: init_state_def)
  moreover from t r have "total fin = renamed fin + skipped fin + errors fin \<and> total fin = 2"
    by (simp add: file_count_def scripted_env_sel)
  ultimately show ?thesis using nd p v r by blast
qed

subsection \<open>What an errored file leaves behind\<close>

lemma length_update_le: "length (AList.update k v al) \<le> Suc (length al)"
  by (induction al) auto

lemma process_file_mapping_length:
  assumes "process_file e opts root d f st = Some st'" and "\<not> dry_run opts"
    and "length (renamed_files st) \<le> renamed st"
  shows "length (renamed_files st') \<le> renamed st'"
  using assms(1)
proof (cases rule: process_file_cases)
  case (success n u pos h)
  with assms(3) length_update_le[of "relpath e (path_join e d f) root"
      "relpath e (path_join e d n) root" "renamed_files st"]
  show ?thesis by simp
qed (use assms in simp_all)

lemma process_files_mapping_length:
  assumes "process_files e opts root d fs st = Some st'" and "\<not> dry_run opts"
    and "length (renamed_files st) \<le> renamed st"
  shows "length (renamed_files st') \<le> renamed st'"
  using assms(1,3)
proof (induction fs arbitrary: st)
  case Nil
  then show ?case by simp
next
  case (Cons f fs)
  from Cons.prems(1) obtain st1 where s1: "process_file e opts root d f st = Some st1"
    and rest: "process_files e opts root d fs st1 = Some st'"
    by (auto split: option.splits)
  from process_file_mapping_length[OF s1 assms(2) Cons.prems(2)] Cons.IH[OF rest]
  show ?case by simp
qed

lemma walk_loop_mapping_length:
  assumes "walk_loop e opts root w st = Some st'" and "\<not> dry_run opts"
    and "length (renamed_files st) \<le> renamed st"
  shows "length (renamed_files st') \<le> renamed st'"
  using assms(1,3)
proof (induction w arbitrary: st)
  case Nil
  then show ?case by simp
next
  case (Cons p w)
  obtain d fs where p: "p = (d, fs)" by (cases p)
  from Cons.prems(1) p obtain st1
    where s1: "process_files e opts root d fs (enter_dir d st) = Some st1"
      and rest: "walk_loop e opts root w st1 = Some st'"
    by (auto split: option.splits)
  from Cons.prems(2) have "length (renamed_files (enter_dir d st)) \<le> renamed (enter_dir d st)"
    by simp
  from process_files_mapping_length[OF s1 assms(2) this] Cons.IH[OF rest]
  show ?case by simp
qed

text \<open>
  Claim C10. When processing a file raises the error counter, the run is not a dry
  run, \<open>safe_rename\<close> has returned \<open>False\<close> for the file, and the mapping and the log
  data are what they were before the file. When processing a file changes the mapping
  or the log data, the error counter is unchanged and either the run is a dry run or
  \<open>safe_rename\<close> has returned \<open>True\<close> for the file. In a run that is not a dry run the
  returned mapping has at most as many entries as files were renamed.
\<close>

theorem errored_file_not_recorded:
  assumes "process_file e opts root d f st = Some st'"
  shows "(errors st' \<noteq> errors st \<longrightarrow>
            \<not> dry_run opts \<and> renamed_files st' = renamed_files st \<and>
            log_files st' = log_files st \<and>
            (\<exists>n u pos h. name_for e opts d f st = Some (n, u, pos) \<and>
               safe_rename e (calls st) (path_join e d f) (path_join e d n) = (False, h))) \<and>
         (renamed_files st' \<noteq> renamed_files st \<or> log_files st' \<noteq> log_files st \<longrightarrow>
            errors st' = errors st \<and>
            (\<exists>n u pos. name_for e opts d f st = Some (n, u, pos) \<and>
               (dry_run opts \<or>
                fst (safe_rename e (calls st) (path_join e d f) (path_join e d n))))) \<and>
         (\<forall>fin. \<not> dry_run opts \<and> rename_files_recursively e root opts = Some (Inr fin) \<longrightarrow>
            length (renamed_files fin) \<le> renamed fin)"
proof -
  have a: "(errors st' \<noteq> errors st \<longrightarrow>
            \<not> dry_run opts \<and> renamed_files st' = renamed_files st \<and>
            log_files st' = log_files st \<and>
            (\<exists>n u pos h. name_for e opts d f st = Some (n, u, pos) \<and>
               safe_rename e (calls st) (path_join e d f) (path_join e d n) = (False, h))) \<and>
         (renamed_files st' \<noteq> renamed_files st \<or> log_files st' \<noteq> log_files st \<longrightarrow>
            errors st' = errors st \<and>
            (\<exists>n u pos. name_for e opts d f st = Some (n, u, pos) \<and>
               (dry_run opts \<or>
                fst (safe_rename e (calls st) (path_join e d f) (path_join e d n)))))"
    using assms by (cases rule: process_file_cases) auto
  have b: "length (renamed_files fin) \<le> renamed fin"
    if nd: "\<not> dry_run opts" and r: "rename_files_recursively e root opts = Some (Inr fin)" for fin
    using r
  proof (cases rule: rename_files_recursively_cases)
    case (1 s)
    from walk_loop_mapping_length[OF 1(1) nd] have "length (renamed_files s) \<le> renamed s"
      by (simp add: init_state_def)
    with 1(2) show ?thesis by auto
  qed
  from a b show ?thesis by blast
qed

text \<open>One file whose rename raises; and a run of two files, the second one raising.\<close>

theorem errored_file_not_recorded_witness:
  "(\<exists>st'. process_file (scripted_env False [Some PermissionError]) default_options ''/r'' ''/r''
            ''a.txt'' (enter_dir ''/r'' init_state) = Some st' \<and>
          errors st' \<noteq> errors (enter_dir ''/r'' init_state) \<and>
          \<not> dry_run default_options \<and>
          renamed_files st' = renamed_files (enter_dir ''/r'' init_state) \<and>
          log_files st' = log_files (enter_dir ''/r'' init_state)) \<and>
   (\<exists>fin. rename_files_recursively (scripted_env False [None, Some PermissionError]) ''/r''
            default_options = Some (Inr fin) \<and>
          renamed_files fin = [(''a.txt'', ''abcdefghij.txt'')] \<and>
          log_files fin = [(''a.txt'', ''abcdefghij.txt'')] \<and> errors fin = 1 \<and>
          length (renamed_files fin) \<le> renamed fin)"
proof -
  let ?e1 = "scripted_env False [Some PermissionError]"
  let ?e2 = "scripted_env False [None, Some PermissionError]"
  let ?st = "enter_dir ''/r'' init_state"
  have "\<exists>st'. process_file ?e1 default_options ''/r'' ''/r'' ''a.txt'' ?st = Some st' \<and>
          errors st' \<noteq> errors ?st"
    by (simp add: eval_defs scripted_env_sel default_options_sel unique_name_first)
  then obtain st' where p: "process_file ?e1 default_options ''/r'' ''/r'' ''a.txt'' ?st = Some st'"
    and er: "errors st' \<noteq> errors ?st" by blast
  have "\<exists>fin. rename_files_recursively ?e2 ''/r'' default_options = Some (Inr fin) \<and>
          renamed_files fin = [(''a.txt'', ''abcdefghij.txt'')] \<and>
          log_files fin = [(''a.txt'', ''abcdefghij.txt'')] \<and> errors fin = 1"
    by (simp add: eval_defs scripted_env_sel default_options_sel unique_name_first
          unique_name_second)
  then obtain fin where r: "rename_files_recursively ?e2 ''/r'' default_options = Some (Inr fin)"
    and v: "renamed_files fin = [(''a.txt'', ''abcdefghij.txt'')]"
           "log_files fin = [(''a.txt'', ''abcdefghij.txt'')]" "errors fin = 1"
    by blast
  have nd: "\<not> dry_run default_options" by (simp add: default_options_sel)
  from errored_file_not_recorded[OF p] er
  have "renamed_files st' = renamed_files ?st \<and> log_files st' = log_files ?st"
    by blast
  moreover have "process_file ?e2 default_options ''/r'' ''/r'' ''a.txt'' ?st \<noteq> None"
    by (simp add: eval_defs scripted_env_sel default_options_sel unique_name_first)
  then obtain st2 where p2: "process_file ?e2 default_options ''/r'' ''/r'' ''a.txt'' ?st = Some st2"
    by blast
  from errored_file_not_recorded[OF p2] nd r
  have "length (renamed_files fin) \<le> renamed fin"
    by blast
  ultimately show ?thesis using p er nd r v by blast
qed

subsection \<open>The collision-avoidance loop\<close>

lemma candidate_0:
  "candidate e opts ext pos 0 =
     fst (generate_random_name (rng e) pos (name_length opts)
            (use_letters opts) (use_digits opts) (use_special opts)) @ ext"
  by (simp add: candidate_def)

lemma generate_random_name_snd [simp]:
  "snd (generate_random_name draws pos len a b c) = pos + nat len"
  by (simp add: generate_random_name_def Let_def)

lemma candidate_Suc:
  "candidate e opts ext pos (Suc k) = candidate e opts ext (pos + nat (name_length opts)) k"
  by (simp add: candidate_def add.assoc)

lemma unique_name_step:
  "unique_name e opts ext d u pos =
     (if candidate e opts ext pos 0 \<notin> names_in u d
      then Some (candidate e opts ext pos 0,
                 u(d \<mapsto> insert (candidate e opts ext pos 0) (names_in u d)),
                 pos + nat (name_length opts))
      else unique_name e opts ext d u (pos + nat (name_length opts)))"
  by (subst unique_name.simps) (simp add: Let_def candidate_0)

lemma unique_name_found:
  assumes "candidate e opts ext pos k \<notin> names_in u d"
    and "\<forall>j<k. candidate e opts ext pos j \<in> names_in u d"
  shows "unique_name e opts ext d u pos =
           Some (candidate e opts ext pos k,
                 u(d \<mapsto> insert (candidate e opts ext pos k) (names_in u d)),
                 pos + Suc k * nat (name_length opts))"
  using assms
proof (induction k arbitrary: pos)
  case 0
  then show ?case by (subst unique_name_step) simp
next
  case (Suc k)
  from Suc.prems(2) have first: "candidate e opts ext pos 0 \<in> names_in u d" by blast
  from Suc.prems have
    "candidate e opts ext (pos + nat (name_length opts)) k \<notin> names_in u d"
    "\<forall>j<k. candidate e opts ext (pos + nat (name_length opts)) j \<in> names_in u d"
    by (auto simp: candidate_Suc[symmetric])
  from Suc.IH[OF this]
  have "unique_name e opts ext d u (pos + nat (name_length opts)) =
          Some (candidate e opts ext pos (Suc k),
                u(d \<mapsto> insert (candidate e opts ext pos (Suc k)) (names_in u d)),
                pos + Suc (Suc k) * nat (name_length opts))"
    by (simp only: candidate_Suc[symmetric] add.assoc mult_Suc)
  moreover from first
  have "unique_name e opts ext d u pos = unique_name e opts ext d u (pos + nat (name_length opts))"
    by (subst unique_name_step) simp
  ultimately show ?case by (simp add: fun_upd_def)
qed

lemma unique_name_Some_fresh:
  assumes "unique_name e opts ext d u pos = Some y"
  shows "\<exists>k. candidate e opts ext pos k \<notin> names_in u d"
proof (rule unique_name.raw_induct[
    where P = "\<lambda>e opts ext d u pos y. \<exists>k. candidate e opts ext pos k \<notin> names_in u d",
    OF _ assms])
  fix f e opts ext d u pos and y :: "string \<times> (string \<rightharpoonup> string set) \<times> nat"
  assume ih: "\<And>e opts ext d u pos y. f e opts ext d u pos = Some y \<Longrightarrow>
                \<exists>k. candidate e opts ext pos k \<notin> names_in u d"
    and body: "(let g = generate_random_name (rng e) pos (name_length opts)
                (use_letters opts) (use_digits opts) (use_special opts);
          new_name = fst g @ ext
      in if new_name \<notin> names_in u d
         then Some (new_name, u(d \<mapsto> insert new_name (names_in u d)), snd g)
         else f e opts ext d u (snd g)) = Some y"
  show "\<exists>k. candidate e opts ext pos k \<notin> names_in u d"
  proof (cases "candidate e opts ext pos 0 \<notin> names_in u d")
    case True
    then show ?thesis by blast
  next
    case False
    with body have "f e opts ext d u (pos + nat (name_length opts)) = Some y"
      by (simp add: Let_def candidate_0)
    from ih[OF this] obtain k
      where "candidate e opts ext (pos + nat (name_length opts)) k \<notin> names_in u d" by blast
    then have "candidate e opts ext pos (Suc k) \<notin> names_in u d"
      by (simp add: candidate_Suc)
    then show ?thesis by blast
  qed
qed

lemma unique_name_char:
  "unique_name e opts ext d u pos =
     (if \<exists>k. candidate e opts ext pos k \<notin> names_in u d
      then let k = (LEAST k. candidate e opts ext pos k \<notin> names_in u d)
           in Some (candidate e opts ext pos k,
                    u(d \<mapsto> insert (candidate e opts ext pos k) (names_in u d)),
                    pos + Suc k * nat (name_length opts))
      else None)"
proof (cases "\<exists>k. candidate e opts ext pos k \<notin> names_in u d")
  case True
  define k where "k = (LEAST k. candidate e opts ext pos k \<notin> names_in u d)"
  from True have "candidate e opts ext pos k \<notin> names_in u d"
    unfolding k_def by (rule LeastI_ex)
  moreover have "\<forall>j<k. candidate e opts ext pos j \<in> names_in u d"
    unfolding k_def using not_less_Least by blast
  ultimately have "unique_name e opts ext d u pos =
           Some (candidate e opts ext pos k,
                 u(d \<mapsto> insert (candidate e opts ext pos k) (names_in u d)),
                 pos + Suc k * nat (name_length opts))"
    by (rule unique_name_found)
  with True show ?thesis
    unfolding Let_def k_def[symmetric] by (simp only: if_True)
next
  case False
  with unique_name_Some_fresh[of e opts ext d u pos] have "unique_name e opts ext d u pos = None"
    by (cases "unique_name e opts ext d u pos") auto
  with False show ?thesis by simp
qed

text \<open>
  Claim C7, as amended. The loop of \<open>unique_name\<close> returns exactly when some pass of
  it, counted from the current position of the random generator, draws a name that is
  not in the used-name set of the directory. It then yields the name of the first such
  pass; that name is not in the set before and is in it afterwards.
\<close>

theorem unique_name_terminates_iff:
  "(unique_name e opts ext d u pos \<noteq> None \<longleftrightarrow>
      (\<exists>k. candidate e opts ext pos k \<notin> names_in u d)) \<and>
   (\<forall>n u' pos'. unique_name e opts ext d u pos = Some (n, u', pos') \<longrightarrow>
      n \<notin> names_in u d \<and> names_in u' d = insert n (names_in u d) \<and>
      (\<exists>k. n = candidate e opts ext pos k \<and>
           (\<forall>j<k. candidate e opts ext pos j \<in> names_in u d)))"
proof (cases "\<exists>k. candidate e opts ext pos k \<notin> names_in u d")
  case True
  define k where "k = (LEAST k. candidate e opts ext pos k \<notin> names_in u d)"
  from True have fresh: "candidate e opts ext pos k \<notin> names_in u d"
    unfolding k_def by (rule LeastI_ex)
  have before: "\<forall>j<k. candidate e opts ext pos j \<in> names_in u d"
    unfolding k_def using not_less_Least by blast
  note found = unique_name_found[OF fresh before]
  have "n \<notin> names_in u d \<and> names_in u' d = insert n (names_in u d) \<and>
        (\<exists>k. n = candidate e opts ext pos k \<and>
             (\<forall>j<k. candidate e opts ext pos j \<in> names_in u d))"
    if "unique_name e opts ext d u pos = Some (n, u', pos')" for n u' pos'
  proof -
    from that found have n: "n = candidate e opts ext pos k"
      and u': "u' = u(d \<mapsto> insert (candidate e opts ext pos k) (names_in u d))"
      by auto
    from u' n have "names_in u' d = insert n (names_in u d)"
      by (simp add: names_in_def)
    with n fresh before show ?thesis by blast
  qed
  moreover from found have "unique_name e opts ext d u pos \<noteq> None" by simp
  ultimately show ?thesis using True by blast
next
  case False
  then have "unique_name e opts ext d u pos = None"
    by (simp add: unique_name_char)
  with False show ?thesis by simp
qed

text \<open>The first name drawn is taken already, the second is free.\<close>

theorem unique_name_terminates_iff_witness:
  "unique_name posix_env default_options ''.txt'' ''/r'' [''/r'' \<mapsto> {''abcdefghij.txt''}] 0 =
     Some (''klmnopqrst.txt'', [''/r'' \<mapsto> {''klmnopqrst.txt'', ''abcdefghij.txt''}], 20) \<and>
   ''klmnopqrst.txt'' \<notin> names_in [''/r'' \<mapsto> {''abcdefghij.txt''}] ''/r'' \<and>
   (\<exists>k. ''klmnopqrst.txt'' = candidate posix_env default_options ''.txt'' 0 k \<and>
        (\<forall>j<k. candidate posix_env default_options ''.txt'' 0 j
                  \<in> names_in [''/r'' \<mapsto> {''abcdefghij.txt''}] ''/r''))"
proof -
  have c0: "candidate posix_env default_options ''.txt'' 0 0 = ''abcdefghij.txt''"
    by (simp add: candidate_def eval_defs posix_env_sel default_options_sel)
  have c1: "candidate posix_env default_options ''.txt'' 0 (Suc 0) = ''klmnopqrst.txt''"
    by (simp add: candidate_def eval_defs posix_env_sel default_options_sel)
  have u: "unique_name posix_env default_options ''.txt'' ''/r''
             [''/r'' \<mapsto> {''abcdefghij.txt''}] 0 =
           Some (''klmnopqrst.txt'', [''/r'' \<mapsto> {''klmnopqrst.txt'', ''abcdefghij.txt''}], 20)"
    using unique_name_found[of posix_env default_options "''.txt''" 0 1
            "[''/r'' \<mapsto> {''abcdefghij.txt''}]" "''/r''"]
    by (simp add: c0 c1 names_in_def default_options_sel)
  from unique_name_terminates_iff[of posix_env default_options "''.txt''" "''/r''"
         "[''/r'' \<mapsto> {''abcdefghij.txt''}]" 0] u
  show ?thesis by blast
qed

text \<open>
  Claim C7 as stated fails: with \<^verbatim>\<open>--length 0\<close> every name drawn for a \<^verbatim>\<open>.txt\<close> file
  is \<^verbatim>\<open>.txt\<close>, so for the second such file of a directory the loop never leaves and
  the run never returns.
\<close>

theorem unique_name_terminates_iff_counterexample:
  "rename_files_recursively posix_env ''/r'' (make_options (no_args\<lparr>arg_length := 0\<rparr>)) = None"
proof -
  let ?o = "make_options (no_args\<lparr>arg_length := 0\<rparr>)"
  have sel: "name_length ?o = 0" "\<not> dry_run ?o" "create_log ?o" "exclude_script ?o"
    "exclude_patterns ?o = None" "exclude_extensions ?o = None"
    by (simp_all add: make_options_def no_args_def)
  have cand: "candidate posix_env ?o ''.txt'' pos k = ''.txt''" for pos k
    by (simp add: candidate_def sel(1) generate_random_name_def Let_def)
  have first: "unique_name posix_env ?o ''.txt'' ''/r'' [''/r'' \<mapsto> {}] 0 =
                 Some (''.txt'', [''/r'' \<mapsto> {''.txt''}], 0)"
    by (subst unique_name_step) (simp add: cand sel(1) names_in_def)
  have second: "unique_name posix_env ?o ''.txt'' ''/r'' [''/r'' \<mapsto> {''.txt''}] 0 = None"
    by (simp add: unique_name_char cand names_in_def)
  have ext: "snd (splitext False ''a.txt'') = ''.txt''" "snd (splitext False ''b.txt'') = ''.txt''"
    by (simp_all add: splitext_def splitext_generic_def rfind_def Let_def upt_rec)
  have ex: "\<not> excluded posix_env ?o ''/r'' ''a.txt''" "\<not> excluded posix_env ?o ''/r'' ''b.txt''"
    by (simp_all add: excluded_def should_exclude_file_def sel posix_env_sel posix_join_def
          posix_basename_def rfind_def ext Let_def)
  show ?thesis
    by (simp add: rename_files_recursively_def posix_env_sel init_state_def start_state_def
          enter_dir_def
          process_file_def Let_def ex name_for_def ext first second sel safe_rename_def
          perform_def store_mapping_def)
qed

subsection \<open>Dry runs\<close>

lemma candidate_dry_run [simp]:
  "candidate e (opts\<lparr>dry_run := b\<rparr>) ext pos k = candidate e opts ext pos k"
  by (simp add: candidate_def)

lemma unique_name_dry_run [simp]:
  "unique_name e (opts\<lparr>dry_run := b\<rparr>) ext d u pos = unique_name e opts ext d u pos"
  by (simp only: unique_name_char[of e "opts\<lparr>dry_run := b\<rparr>"] unique_name_char[of e opts]
        candidate_dry_run) simp

lemma excluded_dry_run [simp]:
  "excluded e (opts\<lparr>dry_run := b\<rparr>) d f = excluded e opts d f"
  by (simp add: excluded_def should_exclude_file_def)

lemma name_for_dry_run [simp]:
  "name_for e (opts\<lparr>dry_run := b\<rparr>) d f st = name_for e opts d f st"
  by (simp add: name_for_def)







lemma unique_name_txt:
  assumes "name_length opts = 10" "use_letters opts" "use_digits opts" "\<not> use_special opts"
    and "rng e = (\<lambda>i. i)"
  shows "unique_name e opts ''.txt'' ''/r'' [''/r'' \<mapsto> {}] 0 =
           Some (''abcdefghij.txt'', [''/r'' \<mapsto> {''abcdefghij.txt''}], 10)"
    and "unique_name e opts ''.txt'' ''/r'' [''/r'' \<mapsto> {''abcdefghij.txt''}] 10 =
           Some (''klmnopqrst.txt'',
                 [''/r'' \<mapsto> {''klmnopqrst.txt'', ''abcdefghij.txt''}], 20)"
  by (subst unique_name.simps, simp add: eval_defs assms)+


subsection \<open>Distinct names and the mapping\<close>

lemma unique_name_SomeD:
  assumes "unique_name e opts ext d u pos = Some (n, u', pos')"
  shows "n \<notin> names_in u d" and "u' = u(d \<mapsto> insert n (names_in u d))"
    and "\<exists>k. n = candidate e opts ext pos k"
proof -
  from assms have ex: "\<exists>k. candidate e opts ext pos k \<notin> names_in u d"
    by (cases "\<exists>k. candidate e opts ext pos k \<notin> names_in u d")
       (simp_all add: unique_name_char)
  define k where "k = (LEAST k. candidate e opts ext pos k \<notin> names_in u d)"
  from ex have fresh: "candidate e opts ext pos k \<notin> names_in u d"
    unfolding k_def by (rule LeastI_ex)
  have "\<forall>j<k. candidate e opts ext pos j \<in> names_in u d"
    unfolding k_def using not_less_Least by blast
  from unique_name_found[OF fresh this] assms
  have n: "n = candidate e opts ext pos k"
    and u': "u' = u(d \<mapsto> insert (candidate e opts ext pos k) (names_in u d))"
    by auto
  from n fresh show "n \<notin> names_in u d" by simp
  from n u' show "u' = u(d \<mapsto> insert n (names_in u d))" by simp
  from n show "\<exists>k. n = candidate e opts ext pos k" by blast
qed

lemma names_in_upd:
  "names_in (u(d \<mapsto> s)) d' = (if d' = d then s else names_in u d')"
  by (simp add: names_in_def)

lemma process_file_names:
  assumes "process_file e opts root d f st = Some st'"
  shows "excluded e opts d f \<Longrightarrow> used_names_by_dir st' = used_names_by_dir st"
    and "\<not> excluded e opts d f \<Longrightarrow>
           \<exists>n. n \<notin> names_in (used_names_by_dir st) d \<and>
               used_names_by_dir st' =
                 (used_names_by_dir st)(d \<mapsto> insert n (names_in (used_names_by_dir st) d))"
  using assms
  by (cases rule: process_file_cases; auto simp: name_for_def dest: unique_name_SomeD(1,2))+

lemma process_file_card:
  assumes "process_file e opts root d f st = Some st'"
    and "finite (names_in (used_names_by_dir st) d')"
  shows "finite (names_in (used_names_by_dir st') d') \<and>
         card (names_in (used_names_by_dir st') d') =
           card (names_in (used_names_by_dir st) d') +
           (if d' = d \<and> \<not> excluded e opts d f then 1 else 0)"
proof (cases "excluded e opts d f")
  case True
  with process_file_names(1)[OF assms(1)] assms(2) show ?thesis by simp
next
  case False
  from process_file_names(2)[OF assms(1) False] obtain n
    where "n \<notin> names_in (used_names_by_dir st) d"
      and "used_names_by_dir st' =
             (used_names_by_dir st)(d \<mapsto> insert n (names_in (used_names_by_dir st) d))"
    by blast
  with assms(2) False show ?thesis
    by (cases "d' = d") (simp_all add: names_in_upd)
qed

lemma process_files_card:
  assumes "process_files e opts root d fs st = Some st'"
    and "finite (names_in (used_names_by_dir st) d')"
  shows "finite (names_in (used_names_by_dir st') d') \<and>
         card (names_in (used_names_by_dir st') d') =
           card (names_in (used_names_by_dir st) d') +
           (if d' = d then length (filter (\<lambda>f. \<not> excluded e opts d f) fs) else 0)"
  using assms
proof (induction fs arbitrary: st)
  case Nil
  then show ?case by simp
next
  case (Cons f fs)
  from Cons.prems(1) obtain s1 where s1: "process_file e opts root d f st = Some s1"
    and rest: "process_files e opts root d fs s1 = Some st'"
    by (auto split: option.splits)
  note c1 = process_file_card[OF s1 Cons.prems(2)]
  from Cons.IH[OF rest] c1 show ?case by simp
qed

lemma walk_loop_card:
  assumes "walk_loop e opts root w st = Some st'"
    and "finite (names_in (used_names_by_dir st) d')"
  shows "finite (names_in (used_names_by_dir st') d') \<and>
         card (names_in (used_names_by_dir st') d') =
           card (names_in (used_names_by_dir st) d') + generated_in e opts w d'"
  using assms
proof (induction w arbitrary: st)
  case Nil
  then show ?case by (simp add: generated_in_def)
next
  case (Cons p w)
  obtain d fs where p: "p = (d, fs)" by (cases p)
  from Cons.prems(1) p obtain s1
    where s1: "process_files e opts root d fs (enter_dir d st) = Some s1"
      and rest: "walk_loop e opts root w s1 = Some st'"
    by (auto split: option.splits)
  from Cons.prems(2) have "finite (names_in (used_names_by_dir (enter_dir d st)) d')"
    by simp
  note c1 = process_files_card[OF s1 this]
  from Cons.IH[OF rest] c1 p show ?case
    by (simp add: generated_in_def)
qed

lemma update_fresh_key:
  "k \<notin> fst ` set al \<Longrightarrow> AList.update k v al = al @ [(k, v)]"
  by (induction al) auto

lemma zip_snoc:
  "length xs = length ys \<Longrightarrow> zip (xs @ [x]) (ys @ [y]) = zip xs ys @ [(x, y)]"
  by simp

lemma process_file_mapping:
  assumes inj: "inj_on (\<lambda>n. relpath e (path_join e d n) root) A"
    and step: "process_file e opts root d f st = Some st'"
    and noerr: "errors st' = errors st" and nex: "\<not> excluded e opts d f"
    and new: "f \<notin> set seen" and inA: "f \<in> A" "set seen \<subseteq> A"
    and len: "length names = length seen"
    and m: "renamed_files st =
              zip (map (\<lambda>n. relpath e (path_join e d n) root) seen)
                  (map (\<lambda>n. relpath e (path_join e d n) root) names)"
    and used: "set names = names_in (used_names_by_dir st) d"
    and dist: "distinct names"
  shows "\<exists>n. renamed_files st' =
               zip (map (\<lambda>n. relpath e (path_join e d n) root) (seen @ [f]))
                   (map (\<lambda>n. relpath e (path_join e d n) root) (names @ [n])) \<and>
             set (names @ [n]) = names_in (used_names_by_dir st') d \<and>
             distinct (names @ [n])"
proof -
  let ?K = "\<lambda>n. relpath e (path_join e d n) root"
  let ?N = "names_in (used_names_by_dir st) d"
  have fresh_key: "?K f \<notin> fst ` set (renamed_files st)"
  proof
    assume "?K f \<in> fst ` set (renamed_files st)"
    then have "?K f \<in> set (map fst (renamed_files st))" by simp
    with m len have "?K f \<in> ?K ` set seen" by simp
    then obtain g where g: "g \<in> set seen" "?K f = ?K g" by blast
    with inj inA have "f = g" by (auto dest: inj_onD)
    with g(1) new show False by simp
  qed
  have stored: "\<exists>n. renamed_files st' = zip (map ?K (seen @ [f])) (map ?K (names @ [n])) \<and>
             set (names @ [n]) = names_in (used_names_by_dir st') d \<and>
             distinct (names @ [n])"
    if nf: "name_for e opts d f st = Some (n, u, pos)"
      and up: "renamed_files st' = AList.update (?K f) (?K n) (renamed_files st)"
      and u': "used_names_by_dir st' = u" for n u pos
  proof -
    from nf have n: "n \<notin> ?N" and u: "u = (used_names_by_dir st)(d \<mapsto> insert n ?N)"
      by (auto simp: name_for_def dest: unique_name_SomeD(1,2))
    from up fresh_key have "renamed_files st' = renamed_files st @ [(?K f, ?K n)]"
      by (simp add: update_fresh_key)
    with m len have "renamed_files st' = zip (map ?K (seen @ [f])) (map ?K (names @ [n]))"
      by simp
    moreover from u u' used have "set (names @ [n]) = names_in (used_names_by_dir st') d"
      by (simp add: names_in_upd)
    moreover from n used dist have "distinct (names @ [n])" by simp
    ultimately show ?thesis by blast
  qed
  from step show ?thesis
  proof (cases rule: process_file_cases)
    case skip
    with nex show ?thesis by simp
  next
    case (dry n u pos)
    from dry(3,4) show ?thesis by (intro stored[of n u pos]) simp_all
  next
    case (success n u pos h)
    from success(3,5) show ?thesis by (intro stored[of n u pos]) simp_all
  next
    case (fail n u pos h)
    with noerr show ?thesis by simp
  qed
qed

lemma process_files_mapping:
  assumes inj: "inj_on (\<lambda>n. relpath e (path_join e d n) root) A"
  shows "process_files e opts root d fs st = Some st' \<Longrightarrow> errors st' = errors st \<Longrightarrow>
         \<forall>f\<in>set fs. \<not> excluded e opts d f \<Longrightarrow> distinct (seen @ fs) \<Longrightarrow>
         set (seen @ fs) \<subseteq> A \<Longrightarrow> length names = length seen \<Longrightarrow>
         renamed_files st =
           zip (map (\<lambda>n. relpath e (path_join e d n) root) seen)
               (map (\<lambda>n. relpath e (path_join e d n) root) names) \<Longrightarrow>
         set names = names_in (used_names_by_dir st) d \<Longrightarrow> distinct names \<Longrightarrow>
         \<exists>names'. length names' = length (seen @ fs) \<and> distinct names' \<and>
           set names' = names_in (used_names_by_dir st') d \<and>
           renamed_files st' =
             zip (map (\<lambda>n. relpath e (path_join e d n) root) (seen @ fs))
                 (map (\<lambda>n. relpath e (path_join e d n) root) names')"
proof (induction fs arbitrary: st seen names)
  case Nil
  then show ?case by auto
next
  case (Cons f fs)
  from Cons.prems(1) obtain s1 where s1: "process_file e opts root d f st = Some s1"
    and rest: "process_files e opts root d fs s1 = Some st'"
    by (auto split: option.splits)
  from process_file_counters(4)[OF s1] process_files_counters[OF rest] Cons.prems(2)
  have e1: "errors s1 = errors st" and e2: "errors st' = errors s1" by simp_all
  from Cons.prems(3) have nex: "\<not> excluded e opts d f" by simp
  from Cons.prems(4) have new: "f \<notin> set seen" by simp
  from Cons.prems(5) have fA: "f \<in> A" and sA: "set seen \<subseteq> A" by simp_all
  from process_file_mapping[OF inj s1 e1 nex new fA sA Cons.prems(6-9)]
  obtain n where m1: "renamed_files s1 =
               zip (map (\<lambda>n. relpath e (path_join e d n) root) (seen @ [f]))
                   (map (\<lambda>n. relpath e (path_join e d n) root) (names @ [n]))"
    and u1: "set (names @ [n]) = names_in (used_names_by_dir s1) d"
    and d1: "distinct (names @ [n])"
    by blast
  from Cons.prems(3) have nex': "\<forall>f\<in>set fs. \<not> excluded e opts d f" by simp
  from Cons.prems(4) have dist': "distinct ((seen @ [f]) @ fs)" by simp
  from Cons.prems(5) have sub': "set ((seen @ [f]) @ fs) \<subseteq> A" by simp
  from Cons.prems(6) have len': "length (names @ [n]) = length (seen @ [f])" by simp
  from Cons.IH[OF rest e2 nex' dist' sub' len' m1 u1 d1] show ?case by simp
qed

text \<open>
  Claim C1, as amended. After a run that returns, the used-name set of every directory
  is finite and has exactly as many elements as names were generated in that directory
  (one for each of its files that is not excluded): no name was generated twice there.
  When the walk of such a run is a single directory of \<open>N\<close> distinct file names, none of
  them excluded, no rename failed, and \<^verbatim>\<open>os.path.relpath\<close> after \<^verbatim>\<open>os.path.join\<close> tells
  the file names apart, the mapping has \<open>N\<close> entries: its keys are the relative paths of
  the \<open>N\<close> files, in order and pairwise distinct, and its values are the relative paths
  of \<open>N\<close> pairwise distinct generated names, which are the used names of the directory.
  The values themselves are pairwise distinct where \<^verbatim>\<open>relpath\<close> after \<^verbatim>\<open>join\<close> tells
  the generated names apart.
\<close>

theorem generated_names_distinct:
  assumes "rename_files_recursively e root opts = Some (Inr fin)"
  shows "(\<forall>d. finite (names_in (used_names_by_dir fin) d) \<and>
              card (names_in (used_names_by_dir fin) d) = generated_in e opts (walk e root) d) \<and>
         (\<forall>d files. walk e root = [(d, files)] \<and> distinct files \<and>
              (\<forall>f\<in>set files. \<not> excluded e opts d f) \<and> errors fin = 0 \<and>
              inj_on (\<lambda>n. relpath e (path_join e d n) root) (set files) \<longrightarrow>
              (\<exists>names. length names = length files \<and> distinct names \<and>
                 set names = names_in (used_names_by_dir fin) d \<and>
                 renamed_files fin =
                   zip (map (\<lambda>n. relpath e (path_join e d n) root) files)
                       (map (\<lambda>n. relpath e (path_join e d n) root) names)) \<and>
              length (renamed_files fin) = length files \<and>
              distinct (map fst (renamed_files fin)) \<and>
              (inj_on (\<lambda>n. relpath e (path_join e d n) root)
                 (names_in (used_names_by_dir fin) d) \<longrightarrow>
               distinct (map snd (renamed_files fin))))"
  using assms
proof (cases rule: rename_files_recursively_cases)
  case (1 st)
  from 1(2) have same: "used_names_by_dir fin = used_names_by_dir st"
    "renamed_files fin = renamed_files st" "errors fin = errors st"
    by auto
  have a: "finite (names_in (used_names_by_dir fin) d) \<and>
           card (names_in (used_names_by_dir fin) d) = generated_in e opts (walk e root) d" for d
    using walk_loop_card[OF 1(1), of d] by (simp add: same names_in_def)
  have b: "(\<exists>names. length names = length files \<and> distinct names \<and>
              set names = names_in (used_names_by_dir fin) d \<and>
              renamed_files fin =
                zip (map (\<lambda>n. relpath e (path_join e d n) root) files)
                    (map (\<lambda>n. relpath e (path_join e d n) root) names)) \<and>
           length (renamed_files fin) = length files \<and>
           distinct (map fst (renamed_files fin)) \<and>
           (inj_on (\<lambda>n. relpath e (path_join e d n) root)
              (names_in (used_names_by_dir fin) d) \<longrightarrow>
            distinct (map snd (renamed_files fin)))"
    if w: "walk e root = [(d, files)]" and df: "distinct files"
      and nex: "\<forall>f\<in>set files. \<not> excluded e opts d f" and ne: "errors fin = 0"
      and inj: "inj_on (\<lambda>n. relpath e (path_join e d n) root) (set files)" for d files
  proof -
    let ?K = "\<lambda>n. relpath e (path_join e d n) root"
    from 1(1) w
    have p: "process_files e opts root d files (enter_dir d (start_state e)) = Some st"
      by (auto split: option.splits)
    from ne same have e0: "errors st = errors (enter_dir d (start_state e))"
      by simp
    have "\<exists>names'. length names' = length ([] @ files) \<and> distinct names' \<and>
            set names' = names_in (used_names_by_dir st) d \<and>
            renamed_files st = zip (map ?K ([] @ files)) (map ?K names')"
      by (rule process_files_mapping[OF inj p e0 nex, of "[]" "[]"])
         (simp_all add: df enter_dir_def names_in_def)
    then obtain names where len: "length names = length files" and dn: "distinct names"
      and sn: "set names = names_in (used_names_by_dir st) d"
      and m: "renamed_files st = zip (map ?K files) (map ?K names)"
      by auto
    from m len have fs: "map fst (renamed_files st) = map ?K files"
      and sd: "map snd (renamed_files st) = map ?K names"
      by simp_all
    from m len have l: "length (renamed_files st) = length files" by simp
    from inj df fs have dk: "distinct (map fst (renamed_files st))"
      by (simp add: distinct_map)
    have dv: "distinct (map snd (renamed_files st))"
      if "inj_on ?K (names_in (used_names_by_dir st) d)"
      using that dn sn sd by (simp add: distinct_map)
    from len dn sn m l dk dv show ?thesis
      unfolding same by blast
  qed
  from a b show ?thesis by blast
qed

text \<open>The two-file directory of the examples.\<close>

theorem generated_names_distinct_witness:
  "\<exists>fin. rename_files_recursively posix_env ''/r'' default_options = Some (Inr fin) \<and>
     walk posix_env ''/r'' = [(''/r'', [''a.txt'', ''b.txt''])] \<and>
     distinct [''a.txt'', ''b.txt''] \<and>
     \<not> excluded posix_env default_options ''/r'' ''a.txt'' \<and>
     \<not> excluded posix_env default_options ''/r'' ''b.txt'' \<and>
     errors fin = 0 \<and>
     inj_on (\<lambda>n. relpath posix_env (path_join posix_env ''/r'' n) ''/r'')
       (set [''a.txt'', ''b.txt'']) \<and>
     inj_on (\<lambda>n. relpath posix_env (path_join posix_env ''/r'' n) ''/r'')
       (names_in (used_names_by_dir fin) ''/r'') \<and>
     card (names_in (used_names_by_dir fin) ''/r'') = 2 \<and>
     renamed_files fin = [(''a.txt'', ''abcdefghij.txt''), (''b.txt'', ''klmnopqrst.txt'')] \<and>
     length (renamed_files fin) = 2 \<and>
     distinct (map fst (renamed_files fin)) \<and>
     distinct (map snd (renamed_files fin))"
proof -
  note un = unique_name_txt[OF default_options_sel(1-4) posix_env_sel(2)]
  have "\<exists>fin. rename_files_recursively posix_env ''/r'' default_options = Some (Inr fin) \<and>
          errors fin = 0 \<and>
          names_in (used_names_by_dir fin) ''/r'' = {''klmnopqrst.txt'', ''abcdefghij.txt''} \<and>
          renamed_files fin =
            [(''a.txt'', ''abcdefghij.txt''), (''b.txt'', ''klmnopqrst.txt'')]"
    by (simp add: eval_defs posix_env_sel default_options_sel un)
  then obtain fin
    where r: "rename_files_recursively posix_env ''/r'' default_options = Some (Inr fin)"
      and e0: "errors fin = 0"
      and names: "names_in (used_names_by_dir fin) ''/r'' =
                    {''klmnopqrst.txt'', ''abcdefghij.txt''}"
      and m: "renamed_files fin =
                [(''a.txt'', ''abcdefghij.txt''), (''b.txt'', ''klmnopqrst.txt'')]"
    by blast
  have w: "walk posix_env ''/r'' = [(''/r'', [''a.txt'', ''b.txt''])]"
    by (simp add: posix_env_sel)
  have d: "distinct [''a.txt'', ''b.txt'']" by simp
  have x: "\<not> excluded posix_env default_options ''/r'' ''a.txt''"
    "\<not> excluded posix_env default_options ''/r'' ''b.txt''"
    by (simp_all add: eval_defs posix_env_sel default_options_sel)
  have i: "inj_on (\<lambda>n. relpath posix_env (path_join posix_env ''/r'' n) ''/r'')
             (set [''a.txt'', ''b.txt''])"
    by (simp add: posix_env_sel posix_join_def relpath_below_def)
  have j: "inj_on (\<lambda>n. relpath posix_env (path_join posix_env ''/r'' n) ''/r'')
             (names_in (used_names_by_dir fin) ''/r'')"
    by (simp add: names posix_env_sel posix_join_def relpath_below_def)
  have g: "generated_in posix_env default_options (walk posix_env ''/r'') ''/r'' = 2"
    by (simp add: generated_in_def w x)
  note t = generated_names_distinct[OF r]
  from t g have c: "card (names_in (used_names_by_dir fin) ''/r'') = 2"
    by simp
  have prem: "walk posix_env ''/r'' = [(''/r'', [''a.txt'', ''b.txt''])] \<and>
      distinct [''a.txt'', ''b.txt''] \<and>
      (\<forall>f\<in>set [''a.txt'', ''b.txt'']. \<not> excluded posix_env default_options ''/r'' f) \<and>
      errors fin = 0 \<and>
      inj_on (\<lambda>n. relpath posix_env (path_join posix_env ''/r'' n) ''/r'')
        (set [''a.txt'', ''b.txt''])"
    using w d x e0 i by simp
  note u = t[THEN conjunct2, rule_format, OF prem]
  from u have l: "length (renamed_files fin) = length [''a.txt'', ''b.txt'']"
    by (rule conjunct2[THEN conjunct1])
  from u have dk: "distinct (map fst (renamed_files fin))"
    by (rule conjunct2[THEN conjunct2, THEN conjunct1])
  from u have "inj_on (\<lambda>n. relpath posix_env (path_join posix_env ''/r'' n) ''/r'')
                 (names_in (used_names_by_dir fin) ''/r'') \<longrightarrow>
               distinct (map snd (renamed_files fin))"
    by (rule conjunct2[THEN conjunct2, THEN conjunct2])
  with j have dv: "distinct (map snd (renamed_files fin))" by (rule rev_mp)
  from l have l2: "length (renamed_files fin) = 2" by simp
  show ?thesis
    by (rule exI[of _ fin]) (intro conjI r w d x e0 i j c m l2 dk dv)
qed

text \<open>With \<^verbatim>\<open>--length 0\<close> the run over the two-file directory never returns.\<close>

lemma run_without_stem_never_returns:
  shows "rename_files_recursively posix_env ''/r'' (make_options (no_args\<lparr>arg_length := 0\<rparr>)) = None"
  and "\<not> excluded posix_env (make_options (no_args\<lparr>arg_length := 0\<rparr>)) ''/r'' ''a.txt''"
  and "\<not> excluded posix_env (make_options (no_args\<lparr>arg_length := 0\<rparr>)) ''/r'' ''b.txt''"
proof -
  let ?o = "make_options (no_args\<lparr>arg_length := 0\<rparr>)"
  have sel: "name_length ?o = 0" "\<not> dry_run ?o" "create_log ?o" "exclude_script ?o"
    "exclude_patterns ?o = None" "exclude_extensions ?o = None"
    by (simp_all add: make_options_def no_args_def)
  have cand: "candidate posix_env ?o ''.txt'' pos k = ''.txt''" for pos k
    by (simp add: candidate_def sel(1) generate_random_name_def Let_def)
  have first: "unique_name posix_env ?o ''.txt'' ''/r'' [''/r'' \<mapsto> {}] 0 =
                 Some (''.txt'', [''/r'' \<mapsto> {''.txt''}], 0)"
    by (subst unique_name_step) (simp add: cand sel(1) names_in_def)
  have second: "unique_name posix_env ?o ''.txt'' ''/r'' [''/r'' \<mapsto> {''.txt''}] 0 = None"
    by (simp add: unique_name_char cand names_in_def)
  have ext: "snd (splitext False ''a.txt'') = ''.txt''" "snd (splitext False ''b.txt'') = ''.txt''"
    by (simp_all add: splitext_def splitext_generic_def rfind_def Let_def upt_rec)
  show ex: "\<not> excluded posix_env ?o ''/r'' ''a.txt''" "\<not> excluded posix_env ?o ''/r'' ''b.txt''"
    by (simp_all add: excluded_def should_exclude_file_def sel posix_env_sel posix_join_def
          posix_basename_def rfind_def ext Let_def)
  show "rename_files_recursively posix_env ''/r'' ?o = None"
    by (simp add: rename_files_recursively_def posix_env_sel init_state_def start_state_def
          enter_dir_def process_file_def Let_def ex name_for_def ext first second sel
          safe_rename_def perform_def store_mapping_def)
qed

text \<open>
  Claim C1 as stated fails: a run over the two files \<^verbatim>\<open>a.txt\<close> and \<^verbatim>\<open>b.txt\<close> of a
  single directory, with no exclusions and no failing rename, produces no mapping at
  all when the name length is 0, since it never returns.
\<close>

theorem generated_names_distinct_counterexample:
  "walk posix_env ''/r'' = [(''/r'', [''a.txt'', ''b.txt''])] \<and>
   distinct [''a.txt'', ''b.txt''] \<and>
   \<not> excluded posix_env (make_options (no_args\<lparr>arg_length := 0\<rparr>)) ''/r'' ''a.txt'' \<and>
   \<not> excluded posix_env (make_options (no_args\<lparr>arg_length := 0\<rparr>)) ''/r'' ''b.txt'' \<and>
   rename_files_recursively posix_env ''/r'' (make_options (no_args\<lparr>arg_length := 0\<rparr>)) = None"
proof -
  have w: "walk posix_env ''/r'' = [(''/r'', [''a.txt'', ''b.txt''])]"
    by (simp add: posix_env_sel)
  have d: "distinct [''a.txt'', ''b.txt'']" by simp
  show ?thesis
    by (rule conjI[OF w conjI[OF d conjI[OF run_without_stem_never_returns(2)
          conjI[OF run_without_stem_never_returns(3) run_without_stem_never_returns(1)]]]])
qed

subsection \<open>The extension of the new name\<close>

lemma rfind_none: "c \<notin> set p \<Longrightarrow> rfind p c = - 1"
  by (simp add: rfind_def)

lemma rfind_ge: "- 1 \<le> rfind p c"
proof (cases "c \<in> set p")
  case True
  have "length (takeWhile (\<lambda>x. x \<noteq> c) (rev p)) \<le> length (rev p)"
    by (rule length_takeWhile_le)
  with True show ?thesis by (simp add: rfind_def)
next
  case False
  then show ?thesis by (simp add: rfind_def)
qed

lemma rfind_last:
  assumes "c \<notin> set rest"
  shows "rfind (r @ c # rest) c = int (length r)"
proof -
  have "takeWhile (\<lambda>x. x \<noteq> c) (rev rest @ c # rev r) = rev rest"
    using assms by (auto simp: takeWhile_tail)
  then show ?thesis by (simp add: rfind_def)
qed

lemma rfind_split:
  assumes "c \<in> set p"
  obtains r rest where "p = r @ c # rest" "c \<notin> set rest" "rfind p c = int (length r)"
proof -
  from assms have "c \<in> set (rev p)" by simp
  then obtain ys zs where rp: "rev p = ys @ c # zs" and nys: "c \<notin> set ys"
    by (meson split_list_first)
  then have "p = rev zs @ c # rev ys"
    by (metis rev_append rev.simps(2) rev_rev_ident append.assoc append_Cons append_Nil)
  moreover from nys have "c \<notin> set (rev ys)" by simp
  ultimately show ?thesis using rfind_last[of c "rev ys" "rev zs"] that by blast
qed

text \<open>The extension that \<open>splitext_generic\<close> splits off is empty, or a dot followed by
  characters that are neither dots nor separators.\<close>

lemma splitext_generic_ext:
  assumes "splitext_generic sep altsep p = (name, ext)"
  shows "ext = [] \<or>
         (\<exists>rest. ext = CHR ''.'' # rest \<and> CHR ''.'' \<notin> set rest \<and> sep \<notin> set rest \<and>
                 (\<forall>a. altsep = Some a \<longrightarrow> a \<notin> set rest))"
proof (cases "ext = []")
  case True
  then show ?thesis by simp
next
  case False
  define sepIndex where "sepIndex = (case altsep of None \<Rightarrow> rfind p sep
                                     | Some a \<Rightarrow> max (rfind p sep) (rfind p a))"
  define dotIndex where "dotIndex = rfind p (CHR ''.'')"
  from assms False have gt: "dotIndex > sepIndex"
    and ext: "ext = drop (nat dotIndex) p"
    by (auto simp: splitext_generic_def Let_def sepIndex_def dotIndex_def split: if_splits)
  have sge: "- 1 \<le> sepIndex"
    unfolding sepIndex_def using rfind_ge by (cases altsep) (auto simp: max_def)
  with gt have "dotIndex \<noteq> - 1" by simp
  then have "CHR ''.'' \<in> set p"
    unfolding dotIndex_def using rfind_none by blast
  then obtain r rest where p: "p = r @ CHR ''.'' # rest" and nd: "CHR ''.'' \<notin> set rest"
    and di: "dotIndex = int (length r)"
    unfolding dotIndex_def by (rule rfind_split)
  from ext p di have e: "ext = CHR ''.'' # rest" by simp
  have nosep: "c \<notin> set rest" if "rfind p c < dotIndex" for c
  proof
    assume "c \<in> set rest"
    then have "c \<in> set p" using p by simp
    then obtain r' rest' where p': "p = r' @ c # rest'" and nc: "c \<notin> set rest'"
      and ci: "rfind p c = int (length r')"
      by (rule rfind_split)
    from \<open>c \<in> set rest\<close> obtain a b where rest: "rest = a @ c # b" and "c \<notin> set b"
      by (meson split_list_last)
    with p have "p = (r @ CHR ''.'' # a) @ c # b" by simp
    with rfind_last[OF \<open>c \<notin> set b\<close>, of "r @ CHR ''.'' # a"]
    have "rfind p c = int (length (r @ CHR ''.'' # a))" by simp
    with that di show False by simp
  qed
  have "rfind p sep \<le> sepIndex"
    unfolding sepIndex_def by (cases altsep) simp_all
  with gt have "rfind p sep < dotIndex" by simp
  then have "sep \<notin> set rest" by (rule nosep)
  moreover have "a \<notin> set rest" if "altsep = Some a" for a
  proof -
    from that have "rfind p a \<le> sepIndex"
      unfolding sepIndex_def by simp
    with gt have "rfind p a < dotIndex" by simp
    then show ?thesis by (rule nosep)
  qed
  ultimately show ?thesis using e nd by blast
qed

text \<open>A non-empty stem without dots and separators, followed by such an extension, is
  split back into the two.\<close>

lemma splitext_generic_append:
  assumes "r \<noteq> []" and "CHR ''.'' \<notin> set r" and "sep \<notin> set r"
    and "\<forall>a. altsep = Some a \<longrightarrow> a \<notin> set r \<and> a \<noteq> CHR ''.''" and "sep \<noteq> CHR ''.''"
    and "ext = [] \<or>
         (\<exists>rest. ext = CHR ''.'' # rest \<and> CHR ''.'' \<notin> set rest \<and> sep \<notin> set rest \<and>
                 (\<forall>a. altsep = Some a \<longrightarrow> a \<notin> set rest))"
  shows "splitext_generic sep altsep (r @ ext) = (r, ext)"
proof (cases "ext = []")
  case True
  with assms(2) have "rfind (r @ ext) (CHR ''.'') = - 1" by (simp add: rfind_none)
  moreover have "- 1 \<le> (case altsep of None \<Rightarrow> rfind (r @ ext) sep
                         | Some a \<Rightarrow> max (rfind (r @ ext) sep) (rfind (r @ ext) a))"
    using rfind_ge by (cases altsep) (auto simp: max_def)
  ultimately show ?thesis using True
    by (simp add: splitext_generic_def Let_def)
next
  case False
  with assms(6) obtain rest where e: "ext = CHR ''.'' # rest" and nd: "CHR ''.'' \<notin> set rest"
    and ns: "sep \<notin> set rest" and na: "\<forall>a. altsep = Some a \<longrightarrow> a \<notin> set rest"
    by blast
  from nd have di: "rfind (r @ ext) (CHR ''.'') = int (length r)"
    unfolding e by (rule rfind_last)
  from assms(3,5) ns e have "rfind (r @ ext) sep = - 1" by (simp add: rfind_none)
  moreover have "rfind (r @ ext) a = - 1" if "altsep = Some a" for a
    using that assms(4) na e by (simp add: rfind_none)
  ultimately have si: "(case altsep of None \<Rightarrow> rfind (r @ ext) sep
                         | Some a \<Rightarrow> max (rfind (r @ ext) sep) (rfind (r @ ext) a)) = - 1"
    by (cases altsep) simp_all
  from assms(1,2) have "(r @ ext) ! 0 \<noteq> CHR ''.''"
    by (cases r) auto
  moreover from assms(1) have "0 \<in> set [0..<length r]" by simp
  ultimately have "list_ex (\<lambda>i. (r @ ext) ! i \<noteq> CHR ''.'') [0..<length r]"
    unfolding list_ex_iff by blast
  with di si show ?thesis
    by (simp add: splitext_generic_def Let_def)
qed

lemma alphabet_plain:
  "CHR ''.'' \<notin> set (alphabet l d False)" "CHR ''/'' \<notin> set (alphabet l d False)"
  "CHR 0x5C \<notin> set (alphabet l d False)"
  by (simp_all add: alphabet_def Let_def ascii_lowercase_def ascii_uppercase_def digits_def)

lemma alphabet_nonempty: "alphabet l d s \<noteq> []"
  by (simp add: alphabet_def Let_def ascii_lowercase_def ascii_uppercase_def digits_def
        special_chars_def)

lemma generate_random_name_fst:
  "length (fst (generate_random_name draws pos len l d s)) = nat len"
  "set (fst (generate_random_name draws pos len l d s)) \<subseteq> set (alphabet l d s)"
  using alphabet_nonempty[of l d s]
  by (auto simp: generate_random_name_def Let_def)

lemma splitext_append:
  assumes "r \<noteq> []" and "CHR ''.'' \<notin> set r" and "CHR ''/'' \<notin> set r"
    and "CHR 0x5C \<notin> set r"
  shows "snd (splitext w (r @ snd (splitext w f))) = snd (splitext w f)"
proof (cases w)
  case True
  obtain name ext where se: "splitext_generic (CHR 0x5C) (Some (CHR ''/'')) f = (name, ext)"
    by (cases "splitext_generic (CHR 0x5C) (Some (CHR ''/'')) f")
  from splitext_generic_append[OF assms(1,2,4) _ _ splitext_generic_ext[OF se]] assms(3)
  have "splitext_generic (CHR 0x5C) (Some (CHR ''/'')) (r @ ext) = (r, ext)"
    by simp
  with True se show ?thesis by (simp add: splitext_def)
next
  case False
  obtain name ext where se: "splitext_generic (CHR ''/'') None f = (name, ext)"
    by (cases "splitext_generic (CHR ''/'') None f")
  from splitext_generic_append[OF assms(1,2,3) _ _ splitext_generic_ext[OF se]]
  have "splitext_generic (CHR ''/'') None (r @ ext) = (r, ext)"
    by simp
  with False se show ?thesis by (simp add: splitext_def)
qed

text \<open>
  Claim C5, as amended. The new name generated for a file is a random stem of the
  configured length, drawn from the configured alphabet, followed by the extension of
  the old name, character for character. When the name length is at least 1 and the
  special characters are not enabled, the extension of the new name, as
  \<^verbatim>\<open>os.path.splitext\<close> reads it, equals the extension of the old name, case included.
\<close>

theorem extension_preserved:
  assumes "name_for e opts d f st = Some (n, u, pos)"
  shows "(\<exists>r. n = r @ snd (splitext (win32 e) f) \<and> length r = nat (name_length opts) \<and>
              set r \<subseteq> set (alphabet (use_letters opts) (use_digits opts) (use_special opts))) \<and>
         (0 < name_length opts \<and> \<not> use_special opts \<longrightarrow>
            snd (splitext (win32 e) n) = snd (splitext (win32 e) f))"
proof -
  let ?ext = "snd (splitext (win32 e) f)"
  from assms unique_name_SomeD(3)[of e opts ?ext d "used_names_by_dir st" "rng_pos st" n u pos]
  obtain k where n: "n = candidate e opts ?ext (rng_pos st) k"
    by (auto simp: name_for_def)
  define r where "r = fst (generate_random_name (rng e)
                       (rng_pos st + k * nat (name_length opts)) (name_length opts)
                       (use_letters opts) (use_digits opts) (use_special opts))"
  from n have nr: "n = r @ ?ext" by (simp add: candidate_def r_def)
  have len: "length r = nat (name_length opts)"
    and sub: "set r \<subseteq> set (alphabet (use_letters opts) (use_digits opts) (use_special opts))"
    unfolding r_def by (rule generate_random_name_fst)+
  have "snd (splitext (win32 e) n) = ?ext" if "0 < name_length opts" "\<not> use_special opts"
  proof -
    from len that(1) have "r \<noteq> []" by auto
    moreover from sub that(2) alphabet_plain[of "use_letters opts" "use_digits opts"]
    have "CHR ''.'' \<notin> set r" "CHR ''/'' \<notin> set r" "CHR 0x5C \<notin> set r"
      by auto
    ultimately show ?thesis unfolding nr by (rule splitext_append)
  qed
  with nr len sub show ?thesis by blast
qed

text \<open>A mixed-case extension is kept as it is.\<close>

theorem extension_preserved_witness:
  "name_for posix_env default_options ''/r'' ''b.TxT'' (enter_dir ''/r'' init_state) =
     Some (''abcdefghij.TxT'', [''/r'' \<mapsto> {''abcdefghij.TxT''}], 10) \<and>
   0 < name_length default_options \<and> \<not> use_special default_options \<and>
   snd (splitext (win32 posix_env) ''b.TxT'') = ''.TxT'' \<and>
   snd (splitext (win32 posix_env) ''abcdefghij.TxT'') = snd (splitext (win32 posix_env) ''b.TxT'')"
proof -
  have ext: "snd (splitext (win32 posix_env) ''b.TxT'') = ''.TxT''"
    by (simp add: posix_env_sel splitext_def splitext_generic_def rfind_def Let_def upt_rec)
  have nf: "name_for posix_env default_options ''/r'' ''b.TxT'' (enter_dir ''/r'' init_state) =
     Some (''abcdefghij.TxT'', [''/r'' \<mapsto> {''abcdefghij.TxT''}], 10)"
    unfolding name_for_def ext
    by (subst unique_name.simps)
       (simp add: eval_defs posix_env_sel default_options_sel)
  from extension_preserved[OF nf] ext nf show ?thesis
    by (simp add: default_options_sel)
qed

text \<open>
  Claim C5 as stated fails: with \<^verbatim>\<open>--special\<close> the alphabet holds the dot, and the
  file \<^verbatim>\<open>README\<close>, which has no extension, is renamed to \<^verbatim>\<open>a.a\<close>, whose extension is
  \<^verbatim>\<open>.a\<close>.
\<close>

theorem extension_preserved_counterexample:
  "map_option (map_sum id renamed_files)
     (rename_files_recursively dotted_env ''/r''
        (make_options (no_args\<lparr>arg_length := 3, arg_special := True\<rparr>))) =
     Some (Inr [(''README'', ''a.a'')]) \<and>
   snd (splitext (win32 dotted_env) ''README'') = [] \<and>
   snd (splitext (win32 dotted_env) ''a.a'') = ''.a''"
proof -
  let ?o = "make_options (no_args\<lparr>arg_length := 3, arg_special := True\<rparr>)"
  have sel: "name_length ?o = 3" "use_letters ?o" "use_digits ?o" "use_special ?o"
    "\<not> dry_run ?o" "create_log ?o" "exclude_script ?o" "exclude_patterns ?o = None"
    "exclude_extensions ?o = None"
    by (simp_all add: make_options_def no_args_def)
  have env: "win32 dotted_env = False" "rng dotted_env = (\<lambda>i. if i = 1 then 84 else 0)"
    "os_call dotted_env = (\<lambda>h c. None)" "path_join dotted_env = posix_join"
    "basename dotted_env = posix_basename" "abspath dotted_env = (\<lambda>p. p)"
    "relpath dotted_env = relpath_below" "isdir dotted_env = (\<lambda>p. True)"
    "walk dotted_env = (\<lambda>r. [(r, [''README''])])"
    "script_file dotted_env = ''/opt/random_rename.py''"
    "stamp dotted_env = ''20240101_120000''"
    by (simp_all add: dotted_env_def posix_env_def)
  have un: "unique_name dotted_env ?o [] ''/r'' [''/r'' \<mapsto> {}] 0 =
              Some (''a.a'', [''/r'' \<mapsto> {''a.a''}], 3)"
    by (subst unique_name.simps) (simp add: eval_defs env sel)
  have "rename_files_recursively dotted_env ''/r'' ?o \<noteq> None \<and>
        map_option (map_sum id renamed_files) (rename_files_recursively dotted_env ''/r'' ?o) =
          Some (Inr [(''README'', ''a.a'')])"
    by (simp add: eval_defs env sel un)
  moreover have "snd (splitext (win32 dotted_env) ''README'') = []"
    "snd (splitext (win32 dotted_env) ''a.a'') = ''.a''"
    by (simp_all add: env splitext_def splitext_generic_def rfind_def Let_def upt_rec)
  ultimately show ?thesis by simp
qed

text \<open>The other way to lose the extension: with \<^verbatim>\<open>--length 0\<close> the new name of a
  \<^verbatim>\<open>.txt\<close> file is \<^verbatim>\<open>.txt\<close>, a name that \<^verbatim>\<open>os.path.splitext\<close> reads as a stem without
  extension.\<close>

lemma extension_lost_without_stem:
  "candidate posix_env (make_options (no_args\<lparr>arg_length := 0\<rparr>))
     (snd (splitext False ''a.txt'')) 0 0 = ''.txt'' \<and>
   snd (splitext False ''.txt'') = []"
  by (simp add: candidate_def generate_random_name_def make_options_def no_args_def
        splitext_def splitext_generic_def rfind_def Let_def upt_rec)

subsection \<open>Exclusion by extension\<close>

text \<open>
  What the code does guarantee: a file whose lower-cased extension is literally one of
  the configured strings is skipped; nothing is called for it and nothing is recorded.
\<close>

lemma excluded_by_extension:
  assumes "exclude_extensions opts = Some l"
    and "lower (snd (splitext (win32 e) (basename e (path_join e d f)))) \<in> set l"
  shows "excluded e opts d f"
    and "process_file e opts root d f st =
           Some (st\<lparr>total := total st + 1, skipped := skipped st + 1\<rparr>)"
proof -
  from assms show x: "excluded e opts d f"
    by (simp add: excluded_def should_exclude_file_def Let_def)
  then show "process_file e opts root d f st =
           Some (st\<lparr>total := total st + 1, skipped := skipped st + 1\<rparr>)"
    by (simp add: process_file_def Let_def)
qed

text \<open>
  Claim C6 at its failing input. With \<^verbatim>\<open>--exclude-ext TXT\<close> the configured set is
  \<^verbatim>\<open>['.TXT']\<close>: line 287 adds the dot and keeps the case, while line 48 lower-cases the
  extension of the file before looking it up. The file \<^verbatim>\<open>a.TXT\<close> is therefore not
  skipped: it is renamed and recorded as a key of the mapping. With
  \<^verbatim>\<open>--exclude-ext txt\<close> the same file is skipped.
\<close>

theorem exclude_ext_upper_case_not_excluded:
  "exclude_extensions (make_options (no_args\<lparr>arg_exclude_ext := Some [''TXT'']\<rparr>)) =
     Some [''.TXT''] \<and>
   map_option (map_sum id skipped)
     (rename_files_recursively upper_env ''/r''
        (make_options (no_args\<lparr>arg_exclude_ext := Some [''TXT'']\<rparr>))) = Some (Inr 0) \<and>
   map_option (map_sum id renamed_files)
     (rename_files_recursively upper_env ''/r''
        (make_options (no_args\<lparr>arg_exclude_ext := Some [''TXT'']\<rparr>))) =
     Some (Inr [(''a.TXT'', ''abcdefghij.TXT'')]) \<and>
   map_option (map_sum id (map fst \<circ> calls))
     (rename_files_recursively upper_env ''/r''
        (make_options (no_args\<lparr>arg_exclude_ext := Some [''TXT'']\<rparr>))) =
     Some (Inr [OsRename ''/r/a.TXT'' ''/r/abcdefghij.TXT'',
                WriteLog ''/r/rename_log_20240101_120000.json''
                  [(''a.TXT'', ''abcdefghij.TXT'')]]) \<and>
   map_option (map_sum id skipped)
     (rename_files_recursively upper_env ''/r''
        (make_options (no_args\<lparr>arg_exclude_ext := Some [''txt'']\<rparr>))) = Some (Inr 1)"
proof -
  let ?o = "make_options (no_args\<lparr>arg_exclude_ext := Some [''TXT'']\<rparr>)"
  let ?p = "make_options (no_args\<lparr>arg_exclude_ext := Some [''txt'']\<rparr>)"
  have sel: "name_length ?o = 10" "use_letters ?o" "use_digits ?o" "\<not> use_special ?o"
    "\<not> dry_run ?o" "create_log ?o" "exclude_script ?o" "exclude_patterns ?o = None"
    "exclude_extensions ?o = Some [''.TXT'']"
    by (simp_all add: make_options_def no_args_def lstrip_dots_def)
  have sel': "name_length ?p = 10" "use_letters ?p" "use_digits ?p" "\<not> use_special ?p"
    "\<not> dry_run ?p" "create_log ?p" "exclude_script ?p" "exclude_patterns ?p = None"
    "exclude_extensions ?p = Some [''.txt'']"
    by (simp_all add: make_options_def no_args_def lstrip_dots_def)
  have env: "win32 upper_env = False" "rng upper_env = (\<lambda>i. i)"
    "os_call upper_env = (\<lambda>h c. None)" "path_join upper_env = posix_join"
    "basename upper_env = posix_basename" "abspath upper_env = (\<lambda>p. p)"
    "relpath upper_env = relpath_below" "isdir upper_env = (\<lambda>p. True)"
    "walk upper_env = (\<lambda>r. [(r, [''a.TXT''])])"
    "script_file upper_env = ''/opt/random_rename.py''"
    "stamp upper_env = ''20240101_120000''"
    by (simp_all add: upper_env_def posix_env_def)
  have un: "unique_name upper_env ?o ''.TXT'' ''/r'' [''/r'' \<mapsto> {}] 0 =
              Some (''abcdefghij.TXT'', [''/r'' \<mapsto> {''abcdefghij.TXT''}], 10)"
    by (subst unique_name.simps) (simp add: eval_defs env sel)
  have a: "map_option (map_sum id skipped) (rename_files_recursively upper_env ''/r'' ?o) =
             Some (Inr 0)"
    by (simp add: eval_defs env sel un)
  have b: "map_option (map_sum id renamed_files)
             (rename_files_recursively upper_env ''/r'' ?o) =
           Some (Inr [(''a.TXT'', ''abcdefghij.TXT'')])"
    by (simp add: eval_defs env sel un)
  have c: "map_option (map_sum id (map fst \<circ> calls))
             (rename_files_recursively upper_env ''/r'' ?o) =
           Some (Inr [OsRename ''/r/a.TXT'' ''/r/abcdefghij.TXT'',
                      WriteLog ''/r/rename_log_20240101_120000.json''
                        [(''a.TXT'', ''abcdefghij.TXT'')]])"
    by (simp add: eval_defs env sel un)
  have d: "map_option (map_sum id skipped) (rename_files_recursively upper_env ''/r'' ?p) =
             Some (Inr 1)"
    by (simp add: eval_defs env sel')
  from sel(9) a b c d show ?thesis by simp
qed

section \<open>Properties of the scanner\<close>

lemma and_then_simps [simp]:
  "and_then (Inl x) k = Inl x" "and_then (Inr v) k = k v"
  by (simp_all add: and_then_def)

lemma and_then_Inl:
  "and_then r k = Inl x \<longleftrightarrow> r = Inl x \<or> (\<exists>v. r = Inr v \<and> k v = Inl x)"
  by (cases r) simp_all

lemma and_then_Inr:
  "and_then r k = Inr y \<longleftrightarrow> (\<exists>v. r = Inr v \<and> k v = Inr y)"
  by (cases r) simp_all

text \<open>Only \<open>get_file_info\<close> can make the scan of a file raise.\<close>

lemma scan_file_Inl:
  "scan_file e dir file = Inl x \<longleftrightarrow> get_file_info e (scan_join e dir file) = Inl x"
  by (cases "get_file_info e (scan_join e dir file)") (simp_all add: scan_file_def Let_def)

lemma scan_files_Inl:
  "scan_files e dir names acc = Inl x \<Longrightarrow> \<exists>file\<in>set names. scan_file e dir file = Inl x"
proof (induction names arbitrary: acc)
  case Nil
  then show ?case by simp
next
  case (Cons nm names)
  then show ?case by (cases "scan_file e dir nm") auto
qed

lemma scan_files_Inr:
  "scan_files e dir names acc = Inr l \<Longrightarrow>
     map Inr l = map Inr acc @ map (scan_file e dir) names"
proof (induction names arbitrary: acc)
  case Nil
  then show ?case by simp
next
  case (Cons nm names)
  then show ?case by (cases "scan_file e dir nm") auto
qed

lemma walked_paths_simps [simp]:
  "walked_paths [] = []"
  "walked_paths ((dir, names) # w) = map (Pair dir) names @ walked_paths w"
  by (simp_all add: walked_paths_def)

lemma scan_dirs_Inl:
  "scan_dirs e w acc = Inl x \<Longrightarrow>
     \<exists>(dir, nm)\<in>set (walked_paths w). scan_file e dir nm = Inl x"
proof (induction w arbitrary: acc)
  case Nil
  then show ?case by simp
next
  case (Cons p w)
  obtain dir names where p: "p = (dir, names)" by (cases p)
  show ?case
  proof (cases "scan_files e dir names acc")
    case (Inl y)
    with Cons.prems p have "y = x" by simp
    with Inl scan_files_Inl[of e dir names acc x]
    show ?thesis by (auto simp: p)
  next
    case (Inr l)
    with Cons.prems p have "scan_dirs e w l = Inl x" by simp
    from Cons.IH[OF this] show ?thesis by (auto simp: p)
  qed
qed

lemma scan_dirs_Inr:
  "scan_dirs e w acc = Inr l \<Longrightarrow>
     map Inr l = map Inr acc @ map (\<lambda>(dir, nm). scan_file e dir nm) (walked_paths w)"
proof (induction w arbitrary: acc)
  case Nil
  then show ?case by simp
next
  case (Cons p w)
  obtain dir names where p: "p = (dir, names)" by (cases p)
  from Cons.prems p obtain l1 where l1: "scan_files e dir names acc = Inr l1"
    and rest: "scan_dirs e w l1 = Inr l"
    by (cases "scan_files e dir names acc") auto
  from Cons.IH[OF rest] scan_files_Inr[OF l1] p show ?case
    by (simp add: comp_def)
qed

text \<open>
  Claim C8. For a scanned file with a PDF extension whose metadata extraction raises,
  the record emitted is the base record with the empty dictionary as \<open>pdf_metadata\<close>;
  for a file with an image extension whose extraction raises, it is the base record with
  the empty dictionary as \<open>image_metadata\<close>. An exception that leaves \<open>map_folder\<close> is
  one that \<open>get_file_info\<close> raised for a file of the walk (\<^verbatim>\<open>os.stat\<close> or the formatting
  of a time stamp), never one of the extraction. When \<open>map_folder\<close> returns, its
  records are those of the files of the walk, one for each file, in order.
\<close>

theorem extraction_failure_degrades:
  "(\<forall>info x. get_file_info e (scan_join e dir file) = Inr info \<and> file_type info = ''.pdf'' \<and>
       pdf_try e (scan_join e dir file) = Inl x \<longrightarrow>
       scan_file e dir file = Inr (info\<lparr>pdf_metadata := Some []\<rparr>)) \<and>
   (\<forall>info x. get_file_info e (scan_join e dir file) = Inr info \<and>
       file_type info \<in> {''.jpg'', ''.jpeg'', ''.png''} \<and>
       image_try e (scan_join e dir file) = Inl x \<longrightarrow>
       scan_file e dir file = Inr (info\<lparr>image_metadata := Some []\<rparr>)) \<and>
   (\<forall>x. map_folder e folder = Inl x \<longrightarrow>
       (\<exists>(d, f)\<in>set (walked_paths (scan_walk e folder)).
          get_file_info e (scan_join e d f) = Inl x)) \<and>
   (\<forall>recs. map_folder e folder = Inr recs \<longrightarrow>
       map Inr recs =
         map (\<lambda>(d, f). scan_file e d f) (walked_paths (scan_walk e folder)))"
proof -
  have a: "scan_file e dir file = Inr (info\<lparr>pdf_metadata := Some []\<rparr>)"
    if "get_file_info e (scan_join e dir file) = Inr info" "file_type info = ''.pdf''"
       "pdf_try e (scan_join e dir file) = Inl x" for info x
    using that by (simp add: scan_file_def get_pdf_metadata_def Let_def)
  have b: "scan_file e dir file = Inr (info\<lparr>image_metadata := Some []\<rparr>)"
    if "get_file_info e (scan_join e dir file) = Inr info"
       "file_type info \<in> {''.jpg'', ''.jpeg'', ''.png''}"
       "image_try e (scan_join e dir file) = Inl x" for info x
    using that by (auto simp: scan_file_def get_image_metadata_def Let_def)
  have c: "\<exists>(d, f)\<in>set (walked_paths (scan_walk e folder)).
             get_file_info e (scan_join e d f) = Inl x"
    if "map_folder e folder = Inl x" for x
    using scan_dirs_Inl[of e "scan_walk e folder" "[]" x] that
    by (auto simp: map_folder_def scan_file_Inl)
  have d: "map Inr recs =
             map (\<lambda>(d, f). scan_file e d f) (walked_paths (scan_walk e folder))"
    if "map_folder e folder = Inr recs" for recs
    using scan_dirs_Inr[of e "scan_walk e folder" "[]" recs] that
    by (simp add: map_folder_def)
  from a b c d show ?thesis by blast
qed

text \<open>
  The example folder: the PDF file cannot be opened, the PNG image has no
  \<^verbatim>\<open>_getexif\<close>; both are emitted with an empty sub-record. When \<^verbatim>\<open>os.stat\<close> raises, the
  scan raises.
\<close>

theorem extraction_failure_degrades_witness:
  "get_file_info scan_example (scan_join scan_example ''/p'' ''broken.pdf'') =
     Inr \<lparr>filename = ''broken.pdf'', file_path = ''/p/broken.pdf'', file_type = ''.pdf'',
          file_size = 12, date_created = ''2023-11-14T22:13:20'',
          date_modified = ''2023-11-14T22:21:40'', added_by = [], tags = [],
          content_summary = [], pdf_metadata = None, image_metadata = None\<rparr> \<and>
   pdf_try scan_example (scan_join scan_example ''/p'' ''broken.pdf'') = Inl OtherException \<and>
   scan_file scan_example ''/p'' ''broken.pdf'' =
     Inr \<lparr>filename = ''broken.pdf'', file_path = ''/p/broken.pdf'', file_type = ''.pdf'',
          file_size = 12, date_created = ''2023-11-14T22:13:20'',
          date_modified = ''2023-11-14T22:21:40'', added_by = [], tags = [],
          content_summary = [], pdf_metadata = Some [], image_metadata = None\<rparr> \<and>
   file_type \<lparr>filename = ''logo.PNG'', file_path = ''/p/logo.PNG'', file_type = ''.png'',
          file_size = 12, date_created = ''2023-11-14T22:13:20'',
          date_modified = ''2023-11-14T22:21:40'', added_by = [], tags = [],
          content_summary = [], pdf_metadata = None, image_metadata = None\<rparr>
     \<in> {''.jpg'', ''.jpeg'', ''.png''} \<and>
   image_try scan_example (scan_join scan_example ''/p'' ''logo.PNG'') = Inl AttributeError \<and>
   scan_file scan_example ''/p'' ''logo.PNG'' =
     Inr \<lparr>filename = ''logo.PNG'', file_path = ''/p/logo.PNG'', file_type = ''.png'',
          file_size = 12, date_created = ''2023-11-14T22:13:20'',
          date_modified = ''2023-11-14T22:21:40'', added_by = [], tags = [],
          content_summary = [], pdf_metadata = None, image_metadata = Some []\<rparr> \<and>
   (\<exists>recs. map_folder scan_example ''/p'' = Inr recs \<and>
      map pdf_metadata recs = [Some [], None, None] \<and>
      map image_metadata recs = [None, Some [], None] \<and>
      map Inr recs =
        map (\<lambda>(d, f). scan_file scan_example d f)
          (walked_paths (scan_walk scan_example ''/p''))) \<and>
   map_folder (scan_example\<lparr>os_stat := (\<lambda>p. Inl FileNotFoundError)\<rparr>) ''/p'' =
     Inl FileNotFoundError \<and>
   (\<exists>(d, f)\<in>set (walked_paths
        (scan_walk (scan_example\<lparr>os_stat := (\<lambda>p. Inl FileNotFoundError)\<rparr>) ''/p'')).
      get_file_info (scan_example\<lparr>os_stat := (\<lambda>p. Inl FileNotFoundError)\<rparr>)
        (scan_join (scan_example\<lparr>os_stat := (\<lambda>p. Inl FileNotFoundError)\<rparr>) d f) =
      Inl FileNotFoundError)"
proof -
  let ?pdf = "\<lparr>filename = ''broken.pdf'', file_path = ''/p/broken.pdf'', file_type = ''.pdf'',
          file_size = 12, date_created = ''2023-11-14T22:13:20'',
          date_modified = ''2023-11-14T22:21:40'', added_by = [], tags = [],
          content_summary = [], pdf_metadata = None, image_metadata = None\<rparr>"
  let ?png = "\<lparr>filename = ''logo.PNG'', file_path = ''/p/logo.PNG'', file_type = ''.png'',
          file_size = 12, date_created = ''2023-11-14T22:13:20'',
          date_modified = ''2023-11-14T22:21:40'', added_by = [], tags = [],
          content_summary = [], pdf_metadata = None, image_metadata = None\<rparr>"
  let ?bad = "scan_example\<lparr>os_stat := (\<lambda>p. Inl FileNotFoundError)\<rparr>"
  note ev = scan_example_def get_file_info_def posix_join_def posix_basename_def
    splitext_def splitext_generic_def rfind_def lower_def lower_char_def ascii_uppercase_def
    ascii_lowercase_def Let_def upt_rec
  have i1: "get_file_info scan_example (scan_join scan_example ''/p'' ''broken.pdf'') = Inr ?pdf"
    by (simp add: ev)
  have t1: "pdf_try scan_example (scan_join scan_example ''/p'' ''broken.pdf'') =
              Inl OtherException"
    by (simp add: scan_example_def pdf_try_def)
  have i2: "get_file_info scan_example (scan_join scan_example ''/p'' ''logo.PNG'') = Inr ?png"
    by (simp add: ev)
  have t2: "image_try scan_example (scan_join scan_example ''/p'' ''logo.PNG'') =
              Inl AttributeError"
    by (simp add: scan_example_def image_try_def Let_def)
  have m: "file_type ?png \<in> {''.jpg'', ''.jpeg'', ''.png''}" by simp
  have p: "file_type ?pdf = ''.pdf''" by simp
  have "\<exists>recs. map_folder scan_example ''/p'' = Inr recs \<and>
          map pdf_metadata recs = [Some [], None, None] \<and>
          map image_metadata recs = [None, Some [], None]"
    by (simp add: map_folder_def scan_file_def get_pdf_metadata_def get_image_metadata_def
          pdf_try_def image_try_def ev)
  then obtain recs where rr: "map_folder scan_example ''/p'' = Inr recs \<and>
          map pdf_metadata recs = [Some [], None, None] \<and>
          map image_metadata recs = [None, Some [], None]"
    by (rule exE)
  note r = rr[THEN conjunct1]
  note rv = rr[THEN conjunct2, THEN conjunct1] rr[THEN conjunct2, THEN conjunct2]
  have bad: "map_folder ?bad ''/p'' = Inl FileNotFoundError"
    by (simp add: map_folder_def scan_file_def ev)
  note t = extraction_failure_degrades[of scan_example "''/p''" "''broken.pdf''" "''/p''"]
  note t' = extraction_failure_degrades[of scan_example "''/p''" "''logo.PNG''" "''/p''"]
  note t'' = extraction_failure_degrades[of ?bad "''/p''" "''broken.pdf''" "''/p''"]
  have a: "scan_file scan_example ''/p'' ''broken.pdf'' = Inr (?pdf\<lparr>pdf_metadata := Some []\<rparr>)"
    by (rule t[THEN conjunct1, rule_format, of ?pdf OtherException,
                OF conjI[OF i1 conjI[OF p t1]]])
  have b: "scan_file scan_example ''/p'' ''logo.PNG'' = Inr (?png\<lparr>image_metadata := Some []\<rparr>)"
    by (rule t'[THEN conjunct2, THEN conjunct1, rule_format, of ?png AttributeError,
                OF conjI[OF i2 conjI[OF m t2]]])
  have d: "map Inr recs = map (\<lambda>(d, f). scan_file scan_example d f)
                      (walked_paths (scan_walk scan_example ''/p''))"
    by (rule t[THEN conjunct2, THEN conjunct2, THEN conjunct2, rule_format, OF r])
  have c: "\<exists>(d, f)\<in>set (walked_paths (scan_walk ?bad ''/p'')).
             get_file_info ?bad (scan_join ?bad d f) = Inl FileNotFoundError"
    by (rule t''[THEN conjunct2, THEN conjunct2, THEN conjunct1, rule_format, OF bad])
  from a have a': "scan_file scan_example ''/p'' ''broken.pdf'' =
     Inr \<lparr>filename = ''broken.pdf'', file_path = ''/p/broken.pdf'', file_type = ''.pdf'',
          file_size = 12, date_created = ''2023-11-14T22:13:20'',
          date_modified = ''2023-11-14T22:21:40'', added_by = [], tags = [],
          content_summary = [], pdf_metadata = Some [], image_metadata = None\<rparr>"
    by simp
  from b have b': "scan_file scan_example ''/p'' ''logo.PNG'' =
     Inr \<lparr>filename = ''logo.PNG'', file_path = ''/p/logo.PNG'', file_type = ''.png'',
          file_size = 12, date_created = ''2023-11-14T22:13:20'',
          date_modified = ''2023-11-14T22:21:40'', added_by = [], tags = [],
          content_summary = [], pdf_metadata = None, image_metadata = Some []\<rparr>"
    by simp
  have e: "\<exists>recs. map_folder scan_example ''/p'' = Inr recs \<and>
      map pdf_metadata recs = [Some [], None, None] \<and>
      map image_metadata recs = [None, Some [], None] \<and>
      map Inr recs =
        map (\<lambda>(d, f). scan_file scan_example d f)
          (walked_paths (scan_walk scan_example ''/p''))"
    by (rule exI[of _ recs]) (intro conjI r rv d)
  show ?thesis
    by (intro conjI i1 t1 a' m t2 b' e bad c)
qed

end
